theory Spec2Isabelle
  imports Complex_Main "HOL-Library.Word"
begin

section \<open>StorageMeter: sequential write benchmark\<close>

text \<open>
  A shallow embedding of \<^verbatim>\<open>StorageMeter.cpp\<close>. The C runtime and the operating system
  are not part of the program: what \<^verbatim>\<open>fopen_s\<close>, \<^verbatim>\<open>fwrite\<close>, \<^verbatim>\<open>fclose\<close>, \<^verbatim>\<open>rand\<close> and
  the clock do is supplied from outside, as records of functions, and every function of
  the program is a HOL function of that environment. A thrown exception is the left
  component of a sum.
\<close>

subsection \<open>Constants and basic types\<close>

type_synonym byte = "8 word"
type_synonym Portion = "byte list"

text \<open>A \<^verbatim>\<open>std::filesystem::path\<close> is the list of its components; \<^verbatim>\<open>operator/\<close> appends one.\<close>

type_synonym path = "string list"

definition g_portionSize :: nat where
  "g_portionSize = 104857600"

definition g_portionsCount :: nat where
  "g_portionsCount = 10"

definition g_maxSlowTests :: nat where
  "g_maxSlowTests = 2"

text \<open>
  The two \<^verbatim>\<open>std::runtime_error\<close>s of \<^verbatim>\<open>WriteTestFile\<close>, with the data their messages are
  built from. The last two are not exceptions: they stand for the two places where the
  program's behaviour is undefined (an integer division by zero, and a conversion of a
  \<^verbatim>\<open>float\<close> that \<^verbatim>\<open>size_t\<close> cannot hold), and the model stops there.
\<close>

datatype error =
    CreateFailed path int
  | WritePortionFailed nat path
  | DivisionByZero
  | CastOutOfRange

subsection \<open>std::to_string and the messages of the exceptions\<close>

definition digit_char :: "nat \<Rightarrow> char" where
  "digit_char d = ''0123456789'' ! d"

fun to_string :: "nat \<Rightarrow> string" where
  "to_string n = (if n < 10 then [digit_char n] else to_string (n div 10) @ [digit_char (n mod 10)])"

declare to_string.simps [simp del]

definition to_string_int :: "int \<Rightarrow> string" where
  "to_string_int i = (if i < 0 then CHR ''-'' # to_string (nat (- i)) else to_string (nat i))"

fun path_string :: "path \<Rightarrow> string" where
  "path_string [] = []"
| "path_string [c] = c"
| "path_string (c # cs) = c @ CHR 0x5C # path_string cs"

fun what :: "error \<Rightarrow> string" where
  "what (CreateFailed p err) =
     ''Failed to create file '' @ path_string p @ '', errno='' @ to_string_int err"
| "what (WritePortionFailed i p) =
     ''Failed to write portion '' @ to_string i @ '' to file '' @ path_string p"
| "what DivisionByZero = []"
| "what CastOutOfRange = []"

subsection \<open>InitPortionWithRandomData\<close>

text \<open>
  \<^verbatim>\<open>rand()\<close> returns an \<^verbatim>\<open>int\<close>, four bytes wide; the \<open>i\<close>-th call after \<^verbatim>\<open>srand\<close> returns
  \<open>rand i\<close>. The \<^verbatim>\<open>reinterpret_cast\<close> store writes the four bytes of the value, least
  significant first, at the byte offset.
\<close>

definition sizeOfRand :: nat where
  "sizeOfRand = 4"

definition int_byte :: "32 word \<Rightarrow> nat \<Rightarrow> byte" where
  "int_byte v k = ucast (drop_bit (8 * k) v)"

definition store_int :: "Portion \<Rightarrow> nat \<Rightarrow> 32 word \<Rightarrow> Portion" where
  "store_int portion off v =
     fold (\<lambda>k p. p[off + k := int_byte v k]) [0..<sizeOfRand] portion"

function fill_loop :: "(nat \<Rightarrow> 32 word) \<Rightarrow> nat \<Rightarrow> Portion \<Rightarrow> Portion" where
  "fill_loop rand i portion =
     (if i < g_portionSize div sizeOfRand
      then fill_loop rand (i + 1) (store_int portion (i * sizeOfRand) (rand i))
      else portion)"
  by pat_completeness auto
termination
  by (relation "measure (\<lambda>(rand, i, portion). g_portionSize div sizeOfRand - i)") auto

declare fill_loop.simps [simp del]

definition InitPortionWithRandomData :: "(nat \<Rightarrow> 32 word) \<Rightarrow> Portion \<Rightarrow> Portion" where
  "InitPortionWithRandomData rand portion = fill_loop rand 0 (replicate g_portionSize 0)"

subsection \<open>The stream, the clock and WriteTestFile\<close>

text \<open>
  The world is the reading of \<^verbatim>\<open>high_resolution_clock\<close> in nanoseconds and the bytes of each
  file. One call of \<^verbatim>\<open>WriteTestFile\<close> meets one \<open>crt\<close>: the value \<^verbatim>\<open>fopen_s\<close> returns and
  whether it left the \<^verbatim>\<open>FILE*\<close> null, how many bytes the \<open>i\<close>-th \<^verbatim>\<open>fwrite\<close> can take, how many
  bytes \<^verbatim>\<open>fclose\<close> fails to write back, and how long each call lasts. Time never runs
  backwards: every cost is a natural number.
\<close>

record world =
  clock :: int
  files :: "path \<rightharpoonup> byte list"

record crt =
  fopen_err :: int
  fopen_null :: bool
  fwrite_room :: "nat \<Rightarrow> nat"
  fclose_lost :: nat
  fopen_cost :: nat
  fwrite_cost :: "nat \<Rightarrow> nat"
  fclose_cost :: nat

record StopWatch =
  m_start :: int

definition Start :: "world \<Rightarrow> StopWatch" where
  "Start w = \<lparr>m_start = clock w\<rparr>"

definition Stop :: "StopWatch \<Rightarrow> world \<Rightarrow> int" where
  "Stop watch w = clock w - m_start watch"

definition tick :: "nat \<Rightarrow> world \<Rightarrow> world" where
  "tick c w = w\<lparr>clock := clock w + int c\<rparr>"

text \<open>\<^verbatim>\<open>fopen_s(&file, path, "w")\<close>: on success the file exists and is empty.\<close>

definition fopen_s :: "crt \<Rightarrow> path \<Rightarrow> world \<Rightarrow> (int \<times> bool) \<times> world" where
  "fopen_s c p w =
     (if fopen_err c \<noteq> 0 \<or> fopen_null c
      then ((fopen_err c, fopen_null c), tick (fopen_cost c) w)
      else ((0, False), tick (fopen_cost c) (w\<lparr>files := (files w)(p \<mapsto> [])\<rparr>)))"

text \<open>
  The mode \<^verbatim>\<open>"w"\<close> opens a text stream. The C runtime \<^verbatim>\<open>fopen_s\<close> belongs to, Microsoft's,
  writes a line feed, the byte \<^verbatim>\<open>0x0A\<close>, that goes through a text stream as the two bytes
  \<^verbatim>\<open>0x0D 0x0A\<close>, and every other byte as it is.
\<close>

definition text_mode :: "Portion \<Rightarrow> byte list" where
  "text_mode bs = concat (map (\<lambda>b. if b = 0x0A then [0x0D, 0x0A] else [b]) bs)"

text \<open>
  The \<open>i\<close>-th \<^verbatim>\<open>fwrite(data, 1, n, file)\<close> returns the number of bytes of \<^verbatim>\<open>data\<close> it
  transfers, which is never more than \<open>n\<close>; they go to the file through the text stream.
\<close>

definition fwrite :: "crt \<Rightarrow> nat \<Rightarrow> path \<Rightarrow> Portion \<Rightarrow> world \<Rightarrow> nat \<times> world" where
  "fwrite c i p portion w =
     (let res = min (fwrite_room c i) (length portion);
          old = (case files w p of None \<Rightarrow> [] | Some bs \<Rightarrow> bs)
      in (res, tick (fwrite_cost c i)
                 (w\<lparr>files := (files w)(p \<mapsto> old @ text_mode (take res portion))\<rparr>)))"

text \<open>
  The stream is buffered: the last bytes it has taken are written to the file by
  \<^verbatim>\<open>fclose\<close>, and \<open>fclose_lost\<close> of them are not when that fails. \<^verbatim>\<open>fclose\<close> returns whether it
  failed, and the program does not look at what it returns.
\<close>

definition flushed :: "crt \<Rightarrow> byte list \<Rightarrow> byte list" where
  "flushed c bs = take (length bs - fclose_lost c) bs"

definition fclose :: "crt \<Rightarrow> path \<Rightarrow> world \<Rightarrow> world" where
  "fclose c p w =
     tick (fclose_cost c)
       (w\<lparr>files := (case files w p of None \<Rightarrow> files w
                      | Some bs \<Rightarrow> (files w)(p \<mapsto> flushed c bs))\<rparr>)"

function write_loop :: "crt \<Rightarrow> path \<Rightarrow> Portion \<Rightarrow> nat \<Rightarrow> world \<Rightarrow> (error + unit) \<times> world" where
  "write_loop c p portion i w =
     (if i < g_portionsCount
      then (let (res, w1) = fwrite c i p portion w
            in if res \<noteq> length portion
               then (Inl (WritePortionFailed i p), fclose c p w1)
               else write_loop c p portion (i + 1) w1)
      else (Inr (), w))"
  by pat_completeness auto
termination
  by (relation "measure (\<lambda>(c, p, portion, i, w). g_portionsCount - i)") auto

declare write_loop.simps [simp del]

definition WriteTestFile :: "crt \<Rightarrow> path \<Rightarrow> Portion \<Rightarrow> world \<Rightarrow> (error + int) \<times> world" where
  "WriteTestFile c p portion w =
     (let ((err, null), w1) = fopen_s c p w
      in if err \<noteq> 0 \<or> null
         then (Inl (CreateFailed p err), w1)
         else (let watch = Start w1
               in case write_loop c p portion 0 w1 of
                    (Inl e, w2) \<Rightarrow> (Inl e, w2)
                  | (Inr u, w2) \<Rightarrow> (let res = Stop watch w2 in (Inr res, fclose c p w2))))"

subsection \<open>Single-precision arithmetic\<close>

text \<open>
  \<^verbatim>\<open>float\<close> is IEEE 754 binary32, every operation rounded to nearest, ties to even, as the
  SSE code of the compilers this program builds with (it needs \<^verbatim>\<open>fopen_s\<close>) computes it.
  The program never forms a negative number, so the model has the non-negative values
  only: a finite value is the real number it denotes.

  \<open>rne\<close> rounds a real to the nearest integer, ties to the even one. \<open>round_sig\<close> rounds
  a positive real to 24 significant bits: it scales by powers of two into
  \<open>[2^23, 2^24)\<close>, where the representable numbers are the integers. \<open>fl\<close> is the
  rounding of binary32: below \<open>2^-126\<close> the spacing is \<open>2^-149\<close>, and a result of
  \<open>2^128\<close> or more is infinite.
\<close>

datatype float = Finite real | Infinity | NaN

definition rne :: "real \<Rightarrow> int" where
  "rne q = (let f = \<lfloor>q\<rfloor>; d = q - of_int f
            in if d < 1 / 2 then f else if 1 / 2 < d then f + 1 else if even f then f else f + 1)"

function round_sig :: "real \<Rightarrow> real" where
  "round_sig x =
     (if x \<le> 0 then 0
      else if x < 2 ^ 23 then round_sig (2 * x) / 2
      else if 2 ^ 24 \<le> x then 2 * round_sig (x / 2)
      else of_int (rne x))"
  by pat_completeness auto
termination
proof (relation "measure (\<lambda>x. if x < 2 ^ 23 then 2 ^ 24 + nat \<lceil>2 ^ 23 / x\<rceil> else nat \<lfloor>x\<rfloor>)")
  show "wf (measure (\<lambda>x::real. if x < 2 ^ 23 then 2 ^ 24 + nat \<lceil>2 ^ 23 / x\<rceil> else nat \<lfloor>x\<rfloor>))"
    by simp
next
  fix x :: real
  assume x: "\<not> x \<le> 0" "x < 2 ^ 23"
  show "(2 * x, x) \<in> measure (\<lambda>x. if x < 2 ^ 23 then 2 ^ 24 + nat \<lceil>2 ^ 23 / x\<rceil> else nat \<lfloor>x\<rfloor>)"
  proof (cases "2 * x < 2 ^ 23")
    case True
    define y where "y = 2 ^ 23 / x"
    have "2 * x < y * x" using x True by (simp add: y_def)
    then have y2: "2 < y" using x by simp
    have "2 ^ 23 / (2 * x) = y / 2" by (simp add: y_def)
    moreover have "\<lceil>y / 2\<rceil> < \<lceil>y\<rceil>"
    proof -
      have "y / 2 \<le> y - 1" using y2 by simp
      then have "\<lceil>y / 2\<rceil> \<le> \<lceil>y - 1\<rceil>" by (rule ceiling_mono)
      then show ?thesis by simp
    qed
    moreover have "0 < \<lceil>y\<rceil>" using y2 by simp
    ultimately show ?thesis using x True by (simp add: y_def)
  next
    case False
    have "\<lfloor>2 * x\<rfloor> < 16777216" using x by (simp add: floor_less_iff)
    then have "nat \<lfloor>2 * x\<rfloor> < 16777216" by linarith
    then have "nat \<lfloor>2 * x\<rfloor> < 2 ^ 24 + nat \<lceil>2 ^ 23 / x\<rceil>" by simp
    then show ?thesis using x False by (simp only: in_measure if_True if_False)
  qed
next
  fix x :: real
  assume x: "\<not> x \<le> 0" "\<not> x < 2 ^ 23" "2 ^ 24 \<le> x"
  have "x / 2 \<le> x - 1" using x by simp
  then have "\<lfloor>x / 2\<rfloor> \<le> \<lfloor>x - 1\<rfloor>" by (rule floor_mono)
  then have "\<lfloor>x / 2\<rfloor> < \<lfloor>x\<rfloor>" by simp
  moreover have "0 < \<lfloor>x\<rfloor>" using x by simp
  ultimately show "(x / 2, x) \<in> measure (\<lambda>x. if x < 2 ^ 23 then 2 ^ 24 + nat \<lceil>2 ^ 23 / x\<rceil> else nat \<lfloor>x\<rfloor>)"
    using x by simp
qed

declare round_sig.simps [simp del]

definition fl :: "real \<Rightarrow> float" where
  "fl x = (if x < 1 / 2 ^ 126 then Finite (of_int (rne (x * 2 ^ 149)) / 2 ^ 149)
           else if round_sig x < 2 ^ 128 then Finite (round_sig x) else Infinity)"

text \<open>The conversion of an unsigned integer, \<^verbatim>\<open>/\<close>, \<^verbatim>\<open>*\<close> and \<^verbatim>\<open><\<close> on \<^verbatim>\<open>float\<close>.\<close>

definition float_of_nat :: "nat \<Rightarrow> float" where
  "float_of_nat n = fl (real n)"

fun fdiv :: "float \<Rightarrow> float \<Rightarrow> float" where
  "fdiv (Finite x) (Finite y) = (if y = 0 then (if x = 0 then NaN else Infinity) else fl (x / y))"
| "fdiv (Finite x) Infinity = Finite 0"
| "fdiv Infinity (Finite y) = Infinity"
| "fdiv Infinity Infinity = NaN"
| "fdiv NaN b = NaN"
| "fdiv a NaN = NaN"

fun fmul :: "float \<Rightarrow> float \<Rightarrow> float" where
  "fmul (Finite x) (Finite y) = fl (x * y)"
| "fmul (Finite x) Infinity = (if x = 0 then NaN else Infinity)"
| "fmul Infinity (Finite y) = (if y = 0 then NaN else Infinity)"
| "fmul Infinity Infinity = Infinity"
| "fmul NaN b = NaN"
| "fmul a NaN = NaN"

fun fless :: "float \<Rightarrow> float \<Rightarrow> bool" where
  "fless (Finite x) (Finite y) = (x < y)"
| "fless (Finite x) Infinity = True"
| "fless a b = False"

text \<open>
  \<^verbatim>\<open>static_cast<size_t>\<close> of a \<^verbatim>\<open>float\<close> drops the fraction; \<^verbatim>\<open>size_t\<close> has 64 bits, and
  the conversion of a value it cannot hold is undefined.
\<close>

fun size_t_of_float :: "float \<Rightarrow> nat option" where
  "size_t_of_float (Finite x) = (if x < 2 ^ 64 then Some (nat \<lfloor>x\<rfloor>) else None)"
| "size_t_of_float Infinity = None"
| "size_t_of_float NaN = None"

definition g_maxTestDuration :: float where
  "g_maxTestDuration = Finite 2"

subsection \<open>TestDriveWriteFirst and CalculateSpeed\<close>

definition resize :: "Portion \<Rightarrow> nat \<Rightarrow> Portion" where
  "resize portion n = take n portion @ replicate (n - length portion) 0"

text \<open>
  The count of a \<^verbatim>\<open>std::chrono::nanoseconds\<close> is a signed 64-bit integer; the one
  \<^verbatim>\<open>WriteTestFile\<close> returns is never negative, and \<open>nat\<close> reads it.
\<close>

definition seconds :: "int \<Rightarrow> float" where
  "seconds firstWriteTime =
     fdiv (float_of_nat (nat firstWriteTime)) (float_of_nat (1000 * 1000 * 1000))"

definition TestDriveWriteFirst ::
  "crt \<Rightarrow> path \<Rightarrow> Portion \<Rightarrow> world \<Rightarrow> (error + int \<times> Portion) \<times> world" where
  "TestDriveWriteFirst c dirPath portion w =
     (case WriteTestFile c (dirPath @ [''single_thread'']) portion w of
        (Inl e, w1) \<Rightarrow> (Inl e, w1)
      | (Inr firstWriteTime, w1) \<Rightarrow>
          (let firstWriteTimeSeconds = seconds firstWriteTime
           in if fless g_maxTestDuration firstWriteTimeSeconds
              then (let prefferedPortionSize =
                          fmul (fdiv g_maxTestDuration firstWriteTimeSeconds)
                            (float_of_nat (length portion))
                    in case size_t_of_float prefferedPortionSize of
                         None \<Rightarrow> (Inl CastOutOfRange, w1)
                       | Some n \<Rightarrow> (Inr (firstWriteTime, resize portion n), w1))
              else (Inr (firstWriteTime, portion), w1)))"

definition GetFileNameForThread :: "nat \<Rightarrow> string" where
  "GetFileNameForThread threadNumber = ''thread'' @ to_string (threadNumber + 1)"

text \<open>
  The product \<^verbatim>\<open>portion.size() * g_portionsCount * threadsCount\<close> is a product of
  \<^verbatim>\<open>size_t\<close>, 64 bits wide: it is taken modulo \<open>2^64\<close>. The two divisions by 1024 are
  divisions of \<^verbatim>\<open>size_t\<close> too, and only their result is converted to \<^verbatim>\<open>float\<close>.
\<close>

definition CalculateSpeed :: "Portion \<Rightarrow> nat \<Rightarrow> nat \<Rightarrow> float" where
  "CalculateSpeed portion threadsCount ns =
     fdiv (float_of_nat
             ((length portion * g_portionsCount * threadsCount) mod 2 ^ 64 div 1024 div 1024))
       (fdiv (fdiv (fdiv (float_of_nat ns) (float_of_nat 1000)) (float_of_nat 1000))
          (float_of_nat 1000))"

subsection \<open>TestDriveWrite\<close>

text \<open>
  The writer threads of one trial run at the same time, each on a file of its own. What
  the C runtime does in the thread \<open>threadNumber\<close> of the trial with \<open>threadsCount\<close>
  threads is \<open>thread_crt env threadsCount threadNumber\<close>; what a thread returns or throws
  depends on nothing else, so each thread is one call of \<^verbatim>\<open>WriteTestFile\<close> on the world
  the sweep started in. A thread that throws sets \<^verbatim>\<open>bad\<close> and leaves its slot of
  \<^verbatim>\<open>results\<close> at the zero the vector was created with.

  Creating the threads of a trial is taken to succeed.

  The thread count and the sum of the durations are natural numbers: the program has them
  in \<^verbatim>\<open>size_t\<close> and \<^verbatim>\<open>uint64_t\<close>, and what is proved of a trial is the program's as long as
  both are below \<open>2^64\<close>, a sum of durations of 584 years.
\<close>

record environment =
  rand_values :: "nat \<Rightarrow> 32 word"
  first_crt :: crt
  thread_crt :: "nat \<Rightarrow> nat \<Rightarrow> crt"

record sweep_state =
  slowTests :: nat
  threadsCount :: nat
  lastSpeed :: float

text \<open>The body of a thread: the call of \<^verbatim>\<open>WriteTestFile\<close>, with what it returns or throws.\<close>

definition thread_body :: "crt \<Rightarrow> path \<Rightarrow> nat \<Rightarrow> Portion \<Rightarrow> world \<Rightarrow> error + int" where
  "thread_body c dirPath threadNumber portion w =
     fst (WriteTestFile c (dirPath @ [GetFileNameForThread threadNumber]) portion w)"

definition run_threads :: "(nat \<Rightarrow> crt) \<Rightarrow> path \<Rightarrow> Portion \<Rightarrow> world \<Rightarrow> nat \<Rightarrow> (error + int) list" where
  "run_threads crts dirPath portion w n =
     map (\<lambda>threadNumber. thread_body (crts threadNumber) dirPath threadNumber portion w) [0..<n]"

definition result_of :: "error + int \<Rightarrow> nat" where
  "result_of r = (case r of Inl e \<Rightarrow> 0 | Inr d \<Rightarrow> nat d)"

text \<open>The loop that joins the threads and adds their results.\<close>

fun join_all :: "nat list \<Rightarrow> nat \<Rightarrow> nat" where
  "join_all [] currentWriteTime = currentWriteTime"
| "join_all (r # rs) currentWriteTime = join_all rs (currentWriteTime + r)"

text \<open>
  One pass of the body of the \<^verbatim>\<open>while\<close> loop: \<open>Inl\<close> is what \<^verbatim>\<open>TestDriveWrite\<close> ends with
  when the pass leaves the function, \<open>Inr\<close> the state the loop goes on with.
\<close>

definition trial :: "environment \<Rightarrow> path \<Rightarrow> Portion \<Rightarrow> world \<Rightarrow> sweep_state \<Rightarrow> (error + nat) + sweep_state" where
  "trial env dirPath portion w st =
     (let outcomes = run_threads (thread_crt env (threadsCount st)) dirPath portion w (threadsCount st);
          bad = list_ex isl outcomes;
          currentWriteTime = join_all (map result_of outcomes) 0
      in if bad then Inl (Inr (threadsCount st))
         else if threadsCount st = 0 then Inl (Inl DivisionByZero)
         else (let currentWriteTime = currentWriteTime div threadsCount st
               in if currentWriteTime = 0 then Inl (Inl DivisionByZero)
                  else (let currentSpeed = CalculateSpeed portion (threadsCount st) currentWriteTime
                        in Inr \<lparr>slowTests = (if fless currentSpeed (lastSpeed st)
                                             then slowTests st + 1 else 0),
                                threadsCount = threadsCount st + 1,
                                lastSpeed = currentSpeed\<rparr>)))"

text \<open>The \<^verbatim>\<open>while\<close> loop. It need not end: \<open>None\<close> is a sweep that runs for ever.\<close>

partial_function (option) sweep ::
  "environment \<Rightarrow> path \<Rightarrow> Portion \<Rightarrow> world \<Rightarrow> sweep_state \<Rightarrow> (error + nat) option" where
  "sweep env dirPath portion w st =
     (if slowTests st < g_maxSlowTests
      then (case trial env dirPath portion w st of
              Inl r \<Rightarrow> Some r
            | Inr st' \<Rightarrow> sweep env dirPath portion w st')
      else Some (Inr (threadsCount st - 1)))"

definition TestDriveWrite :: "environment \<Rightarrow> path \<Rightarrow> world \<Rightarrow> (error + nat) option" where
  "TestDriveWrite env dirPath w =
     (let portion = InitPortionWithRandomData (rand_values env) []
      in case TestDriveWriteFirst (first_crt env) dirPath portion w of
           (Inl e, w1) \<Rightarrow> Some (Inl e)
         | (Inr (t, portion1), w1) \<Rightarrow>
             (let lastWriteTime = nat t;
                  lastSpeed = CalculateSpeed portion1 1 lastWriteTime
              in sweep env dirPath portion1 w1
                   \<lparr>slowTests = 0, threadsCount = 2, lastSpeed = lastSpeed\<rparr>))"

subsection \<open>Notions the properties are stated with\<close>

text \<open>
  A sweep is followed along the states \<open>sts 0\<close>, \<open>sts 1\<close>, ... it passes through, one trial
  from each to the next. The trial that leads from \<open>sts i\<close> to \<open>sts (i + 1)\<close> regresses
  when its throughput, the \<open>lastSpeed\<close> it leaves, is strictly below the one before.
\<close>

definition regress :: "(nat \<Rightarrow> sweep_state) \<Rightarrow> nat \<Rightarrow> bool" where
  "regress sts i = fless (lastSpeed (sts (Suc i))) (lastSpeed (sts i))"

text \<open>
  Scenarios: a block of zeros of a given size; a C runtime in which nothing fails and the
  ten writes of a call take \<open>d\<close> nanoseconds together; one in which \<^verbatim>\<open>fopen_s\<close> fails with
  \<^verbatim>\<open>EACCES\<close>; and environments whose threads all meet the former, with a duration that
  depends on the trial, but for at most one thread that meets the latter.
\<close>

definition zero_block :: "nat \<Rightarrow> Portion" where
  "zero_block n = replicate n 0"

definition smooth_crt :: "nat \<Rightarrow> crt" where
  "smooth_crt d = \<lparr>fopen_err = 0, fopen_null = False, fwrite_room = (\<lambda>i. 2 ^ 64), fclose_lost = 0,
     fopen_cost = 0, fwrite_cost = (\<lambda>i. if i = 0 then d else 0), fclose_cost = 0\<rparr>"

definition denied_crt :: crt where
  "denied_crt = \<lparr>fopen_err = 13, fopen_null = True, fwrite_room = (\<lambda>i. 0), fclose_lost = 0,
     fopen_cost = 0, fwrite_cost = (\<lambda>i. 0), fclose_cost = 0\<rparr>"

definition smooth_env :: "nat \<Rightarrow> (nat \<Rightarrow> nat) \<Rightarrow> environment" where
  "smooth_env d0 d = \<lparr>rand_values = (\<lambda>i. 0), first_crt = smooth_crt d0,
     thread_crt = (\<lambda>n i. smooth_crt (d n))\<rparr>"

definition denying_env :: "(nat \<Rightarrow> nat) \<Rightarrow> nat \<Rightarrow> nat \<Rightarrow> environment" where
  "denying_env d n0 i0 = \<lparr>rand_values = (\<lambda>i. 0), first_crt = smooth_crt 0,
     thread_crt = (\<lambda>n i. if n = n0 \<and> i = i0 then denied_crt else smooth_crt (d n))\<rparr>"

section \<open>InitPortionWithRandomData\<close>

lemma length_int_bytes: "length (map (int_byte v) [0..<sizeOfRand]) = sizeOfRand"
  by simp

text \<open>A store inside the buffer replaces the four bytes at the offset.\<close>

lemma store_int_eq:
  assumes "off + sizeOfRand \<le> length p"
  shows "store_int p off v = take off p @ map (int_byte v) [0..<sizeOfRand] @ drop (off + sizeOfRand) p"
proof (rule nth_equalityI)
  show "length (store_int p off v) =
      length (take off p @ map (int_byte v) [0..<sizeOfRand] @ drop (off + sizeOfRand) p)"
    using assms by (simp add: store_int_def sizeOfRand_def eval_nat_numeral)
next
  fix i assume "i < length (store_int p off v)"
  then have i: "i < length p"
    by (simp add: store_int_def sizeOfRand_def eval_nat_numeral)
  consider "i < off" | "off \<le> i" "i < off + 4" | "off + 4 \<le> i" by linarith
  then show "store_int p off v ! i =
      (take off p @ map (int_byte v) [0..<sizeOfRand] @ drop (off + sizeOfRand) p) ! i"
  proof cases
    case 1
    then show ?thesis
      using assms i by (simp add: store_int_def sizeOfRand_def eval_nat_numeral nth_append)
  next
    case 2
    then obtain k where k: "i = off + k" "k < 4"
      by (metis add_less_cancel_left le_Suc_ex)
    then have "k = 0 \<or> k = 1 \<or> k = 2 \<or> k = 3" by auto
    then show ?thesis
      using assms i k(1)
      by (auto simp: store_int_def sizeOfRand_def eval_nat_numeral nth_append)
  next
    case 3
    then obtain k where k: "i = off + 4 + k"
      by (metis le_Suc_ex)
    show ?thesis
      using assms i unfolding k
      by (simp add: store_int_def sizeOfRand_def eval_nat_numeral nth_append add.commute
          add.left_commute)
  qed
qed

text \<open>
  The loop invariant: when the loop is at \<open>i\<close>, what it returns is the buffer up to byte
  \<open>i * sizeOfRand\<close> followed by the bytes of the random values still to come.
\<close>

lemma fill_loop_eq:
  "length p = g_portionSize \<Longrightarrow> i \<le> g_portionSize div sizeOfRand \<Longrightarrow>
   fill_loop rand i p =
     take (i * sizeOfRand) p
     @ concat (map (\<lambda>j. map (int_byte (rand j)) [0..<sizeOfRand]) [i..<g_portionSize div sizeOfRand])"
proof (induction rand i p rule: fill_loop.induct)
  case (1 rand i portion)
  show ?case
  proof (cases "i < g_portionSize div sizeOfRand")
    case False
    with 1(3) have "i = g_portionSize div sizeOfRand" by simp
    then show ?thesis
      using 1(2) by (subst fill_loop.simps) (simp add: g_portionSize_def sizeOfRand_def)
  next
    case True
    let ?q = "store_int portion (i * sizeOfRand) (rand i)"
    have bound: "i * sizeOfRand + sizeOfRand \<le> length portion"
      using True 1(2) by (simp add: g_portionSize_def sizeOfRand_def)
    have st: "?q = take (i * sizeOfRand) portion @ map (int_byte (rand i)) [0..<sizeOfRand]
                    @ drop (i * sizeOfRand + sizeOfRand) portion"
      by (rule store_int_eq [OF bound])
    have len: "length ?q = g_portionSize"
      using bound 1(2) by (simp add: st)
    have IH: "fill_loop rand (Suc i) ?q =
       take (Suc i * sizeOfRand) ?q @
       concat (map (\<lambda>j. map (int_byte (rand j)) [0..<sizeOfRand]) [Suc i..<g_portionSize div sizeOfRand])"
      using True by (intro 1(1) [OF True, unfolded Suc_eq_plus1 [symmetric]] len) simp
    have tk: "take (Suc i * sizeOfRand) ?q =
       take (i * sizeOfRand) portion @ map (int_byte (rand i)) [0..<sizeOfRand]"
      using bound by (simp add: st)
    have "fill_loop rand i portion = fill_loop rand (Suc i) ?q"
      using True by (subst fill_loop.simps) simp
    also have "\<dots> = (take (i * sizeOfRand) portion @ map (int_byte (rand i)) [0..<sizeOfRand]) @
       concat (map (\<lambda>j. map (int_byte (rand j)) [0..<sizeOfRand]) [Suc i..<g_portionSize div sizeOfRand])"
      unfolding IH tk ..
    also have "\<dots> = take (i * sizeOfRand) portion
       @ concat (map (\<lambda>j. map (int_byte (rand j)) [0..<sizeOfRand]) [i..<g_portionSize div sizeOfRand])"
      using True by (simp add: upt_conv_Cons)
    finally show ?thesis .
  qed
qed

lemma nth_concat_uniform:
  "\<forall>x\<in>set xss. length x = k \<Longrightarrow> j < k * length xss \<Longrightarrow>
   concat xss ! j = xss ! (j div k) ! (j mod k)"
proof (induction xss arbitrary: j)
  case Nil
  then show ?case by simp
next
  case (Cons x xss)
  show ?case
  proof (cases "j < k")
    case True
    then show ?thesis using Cons.prems by (simp add: nth_append)
  next
    case False
    then have "j - k < k * length xss" using Cons.prems by simp
    moreover have "0 < k" using Cons.prems(2) by (cases k) auto
    then have "j div k = Suc ((j - k) div k)" "(j - k) mod k = j mod k"
      using False by (simp_all add: le_mod_geq le_div_geq)
    ultimately show ?thesis
      using Cons False by (simp add: nth_append nth_Cons split: nat.splits)
  qed
qed

lemma InitPortion_eq:
  "InitPortionWithRandomData rand q =
     concat (map (\<lambda>j. map (int_byte (rand j)) [0..<sizeOfRand]) [0..<g_portionSize div sizeOfRand])"
  by (simp add: InitPortionWithRandomData_def fill_loop_eq)

lemma words_count: "g_portionSize div sizeOfRand * sizeOfRand = g_portionSize"
  by (simp add: g_portionSize_def sizeOfRand_def)

lemma length_InitPortion: "length (InitPortionWithRandomData rand q) = g_portionSize"
proof -
  have "length (InitPortionWithRandomData rand q) = (g_portionSize div sizeOfRand) * sizeOfRand"
    unfolding InitPortion_eq
    by (simp add: length_concat comp_def sum_list_triv)
  then show ?thesis by (simp only: words_count)
qed

lemma nth_InitPortion:
  assumes "j < g_portionSize"
  shows "InitPortionWithRandomData rand q ! j = int_byte (rand (j div sizeOfRand)) (j mod sizeOfRand)"
proof -
  let ?xss = "map (\<lambda>j. map (int_byte (rand j)) [0..<sizeOfRand]) [0..<g_portionSize div sizeOfRand]"
  have pos: "0 < sizeOfRand" by (simp add: sizeOfRand_def)
  have jd: "j div sizeOfRand < g_portionSize div sizeOfRand"
    using assms pos words_count by (metis less_mult_imp_div_less mult.commute)
  have "concat ?xss ! j = ?xss ! (j div sizeOfRand) ! (j mod sizeOfRand)"
  proof (rule nth_concat_uniform)
    show "\<forall>x\<in>set ?xss. length x = sizeOfRand" by auto
    show "j < sizeOfRand * length ?xss" using assms words_count by (simp add: mult.commute)
  qed
  also have "?xss ! (j div sizeOfRand) = map (int_byte (rand (j div sizeOfRand))) [0..<sizeOfRand]"
    using jd by simp
  also have "map (int_byte (rand (j div sizeOfRand))) [0..<sizeOfRand] ! (j mod sizeOfRand)
      = int_byte (rand (j div sizeOfRand)) (j mod sizeOfRand)"
    using pos by simp
  finally show ?thesis by (simp only: InitPortion_eq)
qed

text \<open>
  C10. \<^verbatim>\<open>InitPortionWithRandomData\<close> has no size parameter: whatever the buffer held and
  whatever \<^verbatim>\<open>rand\<close> returns, the block it leaves has 104857600 bytes. That is a multiple of
  the size of the value \<^verbatim>\<open>rand\<close> returns, and every byte of the block is a byte of one of
  these values: byte \<open>j\<close> is byte \<open>j mod 4\<close> of the value of call \<open>j div 4\<close>.
\<close>

theorem InitPortion_filled:
  "length (InitPortionWithRandomData rand q) = 104857600 \<and>
   104857600 mod sizeOfRand = 0 \<and>
   (\<forall>j<104857600.
      InitPortionWithRandomData rand q ! j = int_byte (rand (j div sizeOfRand)) (j mod sizeOfRand))"
  using length_InitPortion [of rand q] nth_InitPortion [of _ rand q]
  by (simp add: g_portionSize_def sizeOfRand_def)

theorem InitPortion_filled_witness:
  "(5::nat) < 104857600 \<and>
   InitPortionWithRandomData (\<lambda>i. of_nat (256 * i)) [7, 7] ! 5 = 1 \<and>
   length (InitPortionWithRandomData (\<lambda>i. of_nat (256 * i)) [7, 7]) = 104857600"
  using InitPortion_filled [of "\<lambda>i. of_nat (256 * i)" "[7, 7]"]
  by (simp add: sizeOfRand_def int_byte_def)

section \<open>WriteTestFile\<close>

lemma text_mode_append: "text_mode (xs @ ys) = text_mode xs @ text_mode ys"
  by (simp add: text_mode_def)

lemma text_mode_replicate:
  "text_mode (concat (replicate n xs)) = concat (replicate n (text_mode xs))"
  by (induction n) (simp_all add: text_mode_append, simp add: text_mode_def)

lemma length_text_mode: "length (text_mode bs) = length bs + count_list bs 0x0A"
  by (induction bs) (simp_all add: text_mode_def)

lemma text_mode_plain: "0x0A \<notin> set bs \<Longrightarrow> text_mode bs = bs"
  by (induction bs) (simp_all add: text_mode_def)

lemma count_list_replicate: "count_list (concat (replicate n xs)) x = count_list xs x * n"
  by (induction n) simp_all

lemma count_list_concat: "count_list (concat xss) x = (\<Sum>xs\<leftarrow>xss. count_list xs x)"
  by (induction xss) simp_all

text \<open>The block of a run in which every call of \<^verbatim>\<open>rand\<close> returns 10 has a line feed in every word.\<close>

lemma line_feeds: "count_list (InitPortionWithRandomData (\<lambda>i. 10) q) 0x0A = 26214400"
proof -
  have "map (int_byte 10) [0..<sizeOfRand] = [0x0A, 0, 0, 0]"
    by (simp add: sizeOfRand_def int_byte_def upt_rec drop_bit_eq_div)
  then show ?thesis
    by (simp add: InitPortion_eq count_list_concat comp_def sum_list_triv g_portionSize_def
        sizeOfRand_def)
qed

lemma replicate_10: "replicate 10 x = [x, x, x, x, x, x, x, x, x, x]"
  by (simp add: eval_nat_numeral)

lemma flushed_all: "fclose_lost c = 0 \<Longrightarrow> flushed c bs = bs"
  by (simp add: flushed_def)

lemma fwrite_full:
  "length portion \<le> fwrite_room c i \<Longrightarrow>
   fwrite c i p portion w =
     (length portion,
      w\<lparr>clock := clock w + int (fwrite_cost c i),
        files := (files w)(p \<mapsto> (case files w p of None \<Rightarrow> [] | Some bs \<Rightarrow> bs)
                   @ text_mode portion)\<rparr>)"
  by (simp add: fwrite_def Let_def tick_def min_absorb2)

lemma fwrite_short:
  "fwrite_room c i < length portion \<Longrightarrow>
   fwrite c i p portion w =
     (fwrite_room c i,
      w\<lparr>clock := clock w + int (fwrite_cost c i),
        files := (files w)(p \<mapsto> (case files w p of None \<Rightarrow> [] | Some bs \<Rightarrow> bs)
                   @ text_mode (take (fwrite_room c i) portion))\<rparr>)"
  by (simp add: fwrite_def Let_def tick_def min_absorb1)

text \<open>The loop from portion \<open>i\<close> on, when every remaining write is complete.\<close>

lemma write_loop_ok:
  "(\<forall>j. i \<le> j \<and> j < g_portionsCount \<longrightarrow> length portion \<le> fwrite_room c j) \<Longrightarrow>
   write_loop c p portion i w =
     (Inr (),
      w\<lparr>clock := clock w + int (\<Sum>j = i..<g_portionsCount. fwrite_cost c j),
        files := (if i < g_portionsCount
                  then (files w)(p \<mapsto> (case files w p of None \<Rightarrow> [] | Some bs \<Rightarrow> bs)
                          @ concat (replicate (g_portionsCount - i) (text_mode portion)))
                  else files w)\<rparr>)"
proof (induction c p portion i w rule: write_loop.induct)
  case (1 c p portion i w)
  show ?case
  proof (cases "i < g_portionsCount")
    case False
    then show ?thesis
      by (subst write_loop.simps) simp
  next
    case True
    define w1 where "w1 = w\<lparr>clock := clock w + int (fwrite_cost c i),
        files := (files w)(p \<mapsto> (case files w p of None \<Rightarrow> [] | Some bs \<Rightarrow> bs)
                   @ text_mode portion)\<rparr>"
    have full: "length portion \<le> fwrite_room c i"
      using 1(2) True by simp
    have w1: "fwrite c i p portion w = (length portion, w1)"
      by (simp add: w1_def fwrite_full [OF full])
    have IH: "write_loop c p portion (Suc i) w1 =
       (Inr (),
        w1\<lparr>clock := clock w1 + int (\<Sum>j = Suc i..<g_portionsCount. fwrite_cost c j),
           files := (if Suc i < g_portionsCount
                     then (files w1)(p \<mapsto> (case files w1 p of None \<Rightarrow> [] | Some bs \<Rightarrow> bs)
                             @ concat (replicate (g_portionsCount - Suc i) (text_mode portion)))
                     else files w1)\<rparr>)"
      using 1(1) [OF True w1 [symmetric] refl] 1(2) by simp
    have s: "(\<Sum>j = i..<g_portionsCount. fwrite_cost c j) =
        fwrite_cost c i + (\<Sum>j = Suc i..<g_portionsCount. fwrite_cost c j)"
      using True by (simp add: sum.atLeast_Suc_lessThan)
    have r: "replicate (g_portionsCount - i) (text_mode portion)
        = text_mode portion # replicate (g_portionsCount - Suc i) (text_mode portion)"
      using True by (metis Suc_diff_Suc replicate_Suc)
    show ?thesis
      apply (subst write_loop.simps)
      apply (simp add: True w1 IH s r)
      apply (simp add: w1_def)
      done
  qed
qed

text \<open>The loop from portion \<open>i\<close> on, when portion \<open>k\<close> is the first short write.\<close>

lemma write_loop_short:
  "i \<le> k \<Longrightarrow> k < g_portionsCount \<Longrightarrow> fwrite_room c k < length portion \<Longrightarrow>
   (\<forall>j. i \<le> j \<and> j < k \<longrightarrow> length portion \<le> fwrite_room c j) \<Longrightarrow>
   write_loop c p portion i w =
     (Inl (WritePortionFailed k p),
      w\<lparr>clock := clock w + int (\<Sum>j = i..<Suc k. fwrite_cost c j) + int (fclose_cost c),
        files := (files w)(p \<mapsto> flushed c ((case files w p of None \<Rightarrow> [] | Some bs \<Rightarrow> bs)
                   @ concat (replicate (k - i) (text_mode portion))
                   @ text_mode (take (fwrite_room c k) portion)))\<rparr>)"
proof (induction c p portion i w rule: write_loop.induct)
  case (1 c p portion i w)
  have ik: "i < g_portionsCount" using 1 by simp
  show ?case
  proof (cases "i = k")
    case True
    then show ?thesis
      using 1(4) ik
      apply (subst write_loop.simps)
      apply (simp add: fwrite_short fclose_def tick_def)
      done
  next
    case False
    then have lt: "i < k" using 1(2) by simp
    define w1 where "w1 = w\<lparr>clock := clock w + int (fwrite_cost c i),
        files := (files w)(p \<mapsto> (case files w p of None \<Rightarrow> [] | Some bs \<Rightarrow> bs)
                   @ text_mode portion)\<rparr>"
    have full: "length portion \<le> fwrite_room c i"
      using 1(5) lt by simp
    have w1: "fwrite c i p portion w = (length portion, w1)"
      by (simp add: w1_def fwrite_full [OF full])
    have IH: "write_loop c p portion (Suc i) w1 =
       (Inl (WritePortionFailed k p),
        w1\<lparr>clock := clock w1 + int (\<Sum>j = Suc i..<Suc k. fwrite_cost c j) + int (fclose_cost c),
           files := (files w1)(p \<mapsto> flushed c ((case files w1 p of None \<Rightarrow> [] | Some bs \<Rightarrow> bs)
                      @ concat (replicate (k - Suc i) (text_mode portion))
                      @ text_mode (take (fwrite_room c k) portion)))\<rparr>)"
      using 1(3,4,5) lt
      by (intro 1(1) [OF ik w1 [symmetric] refl, unfolded Suc_eq_plus1 [symmetric]]) auto
    have r: "replicate (k - i) (text_mode portion)
        = text_mode portion # replicate (k - Suc i) (text_mode portion)"
      using lt by (metis Suc_diff_Suc replicate_Suc)
    show ?thesis
      apply (subst write_loop.simps)
      using lt
      apply (simp add: ik w1 IH r)
      apply (simp add: w1_def sum.atLeast_Suc_lessThan [of i k])
      done
  qed
qed

lemma WriteTestFile_denied:
  "fopen_err c \<noteq> 0 \<or> fopen_null c \<Longrightarrow>
   WriteTestFile c p portion w =
     (Inl (CreateFailed p (fopen_err c)), w\<lparr>clock := clock w + int (fopen_cost c)\<rparr>)"
  by (auto simp: WriteTestFile_def fopen_s_def tick_def)

lemma WriteTestFile_ok:
  assumes "fopen_err c = 0" "\<not> fopen_null c"
    and "\<forall>j<g_portionsCount. length portion \<le> fwrite_room c j"
  shows "WriteTestFile c p portion w =
     (Inr (int (\<Sum>j<g_portionsCount. fwrite_cost c j)),
      w\<lparr>clock := clock w + int (fopen_cost c) + int (\<Sum>j<g_portionsCount. fwrite_cost c j)
                 + int (fclose_cost c),
        files := (files w)(p \<mapsto>
                   flushed c (text_mode (concat (replicate g_portionsCount portion))))\<rparr>)"
proof -
  have pos: "0 < g_portionsCount" by (simp add: g_portionsCount_def)
  show ?thesis
    using assms pos
    by (simp add: WriteTestFile_def fopen_s_def tick_def write_loop_ok Start_def Stop_def fclose_def
        atLeast0LessThan text_mode_replicate)
qed

lemma WriteTestFile_short:
  assumes "fopen_err c = 0" "\<not> fopen_null c"
    and "k < g_portionsCount" "fwrite_room c k < length portion"
    and "\<forall>j<k. length portion \<le> fwrite_room c j"
  shows "WriteTestFile c p portion w =
     (Inl (WritePortionFailed k p),
      w\<lparr>clock := clock w + int (fopen_cost c) + int (\<Sum>j<Suc k. fwrite_cost c j) + int (fclose_cost c),
        files := (files w)(p \<mapsto>
                   flushed c (text_mode (concat (replicate k portion) @ take (fwrite_room c k) portion)))\<rparr>)"
  using assms
  by (simp add: WriteTestFile_def fopen_s_def tick_def write_loop_short [where k = k] atLeast0LessThan
      text_mode_append text_mode_replicate del: sum.lessThan_Suc)

lemma first_short:
  assumes "\<exists>i<n. P (i::nat)"
  shows "\<exists>k<n. P k \<and> (\<forall>j<k. \<not> P j)"
proof -
  from assms obtain i where i: "i < n" "P i" by blast
  define k where "k = (LEAST i. P i)"
  have "P k" unfolding k_def using i(2) by (rule LeastI)
  moreover have "k \<le> i" unfolding k_def using i(2) by (rule Least_le)
  moreover have "\<forall>j<k. \<not> P j" unfolding k_def using not_less_Least by blast
  ultimately show ?thesis using i(1) by (meson le_less_trans)
qed

text \<open>The three ways a call can go.\<close>

lemma WriteTestFile_cases:
  obtains
    (denied) "fopen_err c \<noteq> 0 \<or> fopen_null c"
      "WriteTestFile c p portion w =
         (Inl (CreateFailed p (fopen_err c)), w\<lparr>clock := clock w + int (fopen_cost c)\<rparr>)"
  | (short) k where "fopen_err c = 0" "\<not> fopen_null c" "k < g_portionsCount"
      "fwrite_room c k < length portion" "\<forall>j<k. length portion \<le> fwrite_room c j"
      "WriteTestFile c p portion w =
         (Inl (WritePortionFailed k p),
          w\<lparr>clock := clock w + int (fopen_cost c) + int (\<Sum>j<Suc k. fwrite_cost c j)
                     + int (fclose_cost c),
            files := (files w)(p \<mapsto>
                       flushed c (text_mode (concat (replicate k portion)
                                              @ take (fwrite_room c k) portion)))\<rparr>)"
  | (ok) "fopen_err c = 0" "\<not> fopen_null c" "\<forall>j<g_portionsCount. length portion \<le> fwrite_room c j"
      "WriteTestFile c p portion w =
         (Inr (int (\<Sum>j<g_portionsCount. fwrite_cost c j)),
          w\<lparr>clock := clock w + int (fopen_cost c) + int (\<Sum>j<g_portionsCount. fwrite_cost c j)
                     + int (fclose_cost c),
            files := (files w)(p \<mapsto>
                       flushed c (text_mode (concat (replicate g_portionsCount portion))))\<rparr>)"
proof -
  let ?open = "fopen_err c \<noteq> 0 \<or> fopen_null c"
  let ?short = "\<exists>i<g_portionsCount. fwrite_room c i < length portion"
  consider ?open | "\<not> ?open" ?short | "\<not> ?open" "\<not> ?short" by blast
  then show thesis
  proof cases
    case 1
    then show thesis using WriteTestFile_denied [OF 1] denied by blast
  next
    case 2
    from first_short [OF 2(2)] obtain k where k: "k < g_portionsCount"
      "fwrite_room c k < length portion" "\<forall>j<k. \<not> fwrite_room c j < length portion"
      by blast
    have all: "\<forall>j<k. length portion \<le> fwrite_room c j" using k(3) leI by blast
    show thesis
      using 2(1) k(1,2) all WriteTestFile_short [of c k portion p w] short [of k] by blast
  next
    case 3
    have all: "\<forall>j<g_portionsCount. length portion \<le> fwrite_room c j" using 3(2) leI by blast
    show thesis
      using 3(1) all WriteTestFile_ok [of c portion p w] ok by blast
  qed
qed

text \<open>
  C6, as the code has it. For every file path and block, \<^verbatim>\<open>WriteTestFile\<close> throws if and only
  if the file cannot be opened or some write transfers fewer bytes than requested. A file
  that cannot be opened gives the error that carries the path and the error number. A
  short write is not retried, and the error carries the index of that portion, the first
  short one. On success the duration returned is not negative and the stream has taken
  the block ten times, \<open>blockSize * 10\<close> bytes; the file holds them as the text stream
  writes them, two bytes for each line feed, which is \<open>10\<close> bytes more for each line feed of
  the block, and without those \<^verbatim>\<open>fclose\<close> did not write. It holds the block ten times when
  the block has no line feed and \<^verbatim>\<open>fclose\<close> has written everything.
\<close>

theorem WriteTestFile_outcome:
  "((\<exists>e. fst (WriteTestFile c p portion w) = Inl e) \<longleftrightarrow>
      (fopen_err c \<noteq> 0 \<or> fopen_null c) \<or> (\<exists>i<g_portionsCount. fwrite_room c i < length portion)) \<and>
   (fopen_err c \<noteq> 0 \<or> fopen_null c \<longrightarrow>
      fst (WriteTestFile c p portion w) = Inl (CreateFailed p (fopen_err c))) \<and>
   (\<forall>k<g_portionsCount.
      fopen_err c = 0 \<and> \<not> fopen_null c \<and> fwrite_room c k < length portion \<and>
      (\<forall>j<k. length portion \<le> fwrite_room c j) \<longrightarrow>
      fst (WriteTestFile c p portion w) = Inl (WritePortionFailed k p) \<and>
      files (snd (WriteTestFile c p portion w)) p =
        Some (flushed c (text_mode (concat (replicate k portion) @ take (fwrite_room c k) portion)))) \<and>
   (\<forall>d. fst (WriteTestFile c p portion w) = Inr d \<longrightarrow>
      0 \<le> d \<and>
      files (snd (WriteTestFile c p portion w)) p =
        Some (flushed c (text_mode (concat (replicate 10 portion)))) \<and>
      length (text_mode (concat (replicate 10 portion))) = (length portion + count_list portion 0x0A) * 10 \<and>
      (fclose_lost c = 0 \<and> 0x0A \<notin> set portion \<longrightarrow>
         files (snd (WriteTestFile c p portion w)) p = Some (concat (replicate 10 portion)) \<and>
         length (concat (replicate 10 portion)) = length portion * 10))"
proof -
  have len: "length (concat (replicate 10 portion)) = length portion * 10"
    by (simp add: length_concat sum_list_replicate)
  have len': "length (text_mode (concat (replicate 10 portion)))
      = (length portion + count_list portion 0x0A) * 10"
    by (simp only: length_text_mode len count_list_replicate distrib_right)
  have plain: "flushed c (text_mode (concat (replicate 10 portion))) = concat (replicate 10 portion)"
    if "fclose_lost c = 0" "0x0A \<notin> set portion"
  proof -
    have "0x0A \<notin> set (concat (replicate 10 portion))" using that(2) by simp
    then have "text_mode (concat (replicate 10 portion)) = concat (replicate 10 portion)"
      by (rule text_mode_plain)
    then show ?thesis using that(1) by (simp add: flushed_all)
  qed
  show ?thesis
  proof (cases rule: WriteTestFile_cases [where c = c and p = p and portion = portion and w = w])
    case denied
    show ?thesis
      using denied(1) by (simp add: denied(2))
  next
    case (short k)
    have uniq: "k' = k" if "k' < g_portionsCount" "fwrite_room c k' < length portion"
      "\<forall>j<k'. length portion \<le> fwrite_room c j" for k'
      using that short(3,4,5) by (metis not_less linorder_neqE_nat)
    have some: "\<exists>i<g_portionsCount. fwrite_room c i < length portion"
      using short(3,4) by blast
    show ?thesis
    proof (intro conjI allI impI)
      fix k' assume "k' < g_portionsCount"
        and "fopen_err c = 0 \<and> \<not> fopen_null c \<and> fwrite_room c k' < length portion \<and>
          (\<forall>j<k'. length portion \<le> fwrite_room c j)"
      then have "k' = k" using uniq by blast
      then show "fst (WriteTestFile c p portion w) = Inl (WritePortionFailed k' p)"
        and "files (snd (WriteTestFile c p portion w)) p =
          Some (flushed c (text_mode (concat (replicate k' portion) @ take (fwrite_room c k') portion)))"
        by (simp_all add: short(6))
    qed (use some short(1,2) in \<open>simp_all add: short(6)\<close>)
  next
    case ok
    have noshort: "\<not> (\<exists>i<g_portionsCount. fwrite_room c i < length portion)"
      using ok(3) by (meson leD)
    have held: "files (snd (WriteTestFile c p portion w)) p =
        Some (flushed c (text_mode (concat (replicate 10 portion))))"
      by (simp add: ok(4) g_portionsCount_def)
    have d: "fst (WriteTestFile c p portion w) = Inr (int (\<Sum>j<g_portionsCount. fwrite_cost c j))"
      by (simp add: ok(4))
    show ?thesis
    proof (intro conjI allI impI)
      show "(\<exists>e. fst (WriteTestFile c p portion w) = Inl e) \<longleftrightarrow>
          (fopen_err c \<noteq> 0 \<or> fopen_null c) \<or> (\<exists>i<g_portionsCount. fwrite_room c i < length portion)"
        using ok(1,2) noshort by (simp add: d)
    next
      assume "fopen_err c \<noteq> 0 \<or> fopen_null c"
      then show "fst (WriteTestFile c p portion w) = Inl (CreateFailed p (fopen_err c))"
        using ok(1,2) by simp
    next
      fix k assume "k < g_portionsCount"
        and "fopen_err c = 0 \<and> \<not> fopen_null c \<and> fwrite_room c k < length portion \<and>
          (\<forall>j<k. length portion \<le> fwrite_room c j)"
      then have False using noshort by blast
      then show "fst (WriteTestFile c p portion w) = Inl (WritePortionFailed k p)"
        and "files (snd (WriteTestFile c p portion w)) p =
          Some (flushed c (text_mode (concat (replicate k portion) @ take (fwrite_room c k) portion)))"
        by simp_all
    next
      fix d' assume "fst (WriteTestFile c p portion w) = Inr d'"
      then have "d' = int (\<Sum>j<g_portionsCount. fwrite_cost c j)" using d by simp
      then show "0 \<le> d'" by (simp add: sum_nonneg)
    next
      fix d' show "files (snd (WriteTestFile c p portion w)) p =
          Some (flushed c (text_mode (concat (replicate 10 portion))))"
        by (rule held)
    next
      fix d' show "length (text_mode (concat (replicate 10 portion)))
          = (length portion + count_list portion 0x0A) * 10"
        by (rule len')
    next
      fix d' assume "fclose_lost c = 0 \<and> 0x0A \<notin> set portion"
      then show "files (snd (WriteTestFile c p portion w)) p = Some (concat (replicate 10 portion))"
        using held plain by simp
    next
      fix d' show "length (concat (replicate 10 portion)) = length portion * 10"
        by (rule len)
    qed
  qed
qed

text \<open>
  Six calls. A block that is one line feed, all of whose writes are complete: the file
  holds 20 bytes, not the 10 the stream has taken. The block of 104857600 bytes of a run in
  which \<^verbatim>\<open>rand\<close> returns 10: the file holds 1310720000 bytes, not 1048576000. A block with
  no line feed: the file holds it ten times. The same block when \<^verbatim>\<open>fclose\<close> fails to write
  the last 3 bytes: the call returns as before and the file holds 17 bytes. A file that
  cannot be opened. A fourth write that is short.
\<close>

theorem WriteTestFile_outcome_witness:
  "fst (WriteTestFile \<lparr>fopen_err = 0, fopen_null = False, fwrite_room = (\<lambda>i. 1000), fclose_lost = 0,
          fopen_cost = 3, fwrite_cost = (\<lambda>i. 1), fclose_cost = 5\<rparr> [''x:'', ''temp'', ''single_thread'']
          [0x0A] \<lparr>clock = 0, files = Map.empty\<rparr>)
     = Inr 10 \<and>
   files (snd (WriteTestFile \<lparr>fopen_err = 0, fopen_null = False, fwrite_room = (\<lambda>i. 1000), fclose_lost = 0,
          fopen_cost = 3, fwrite_cost = (\<lambda>i. 1), fclose_cost = 5\<rparr> [''x:'', ''temp'', ''single_thread'']
          [0x0A] \<lparr>clock = 0, files = Map.empty\<rparr>))
       [''x:'', ''temp'', ''single_thread'']
     = Some [0x0D, 0x0A, 0x0D, 0x0A, 0x0D, 0x0A, 0x0D, 0x0A, 0x0D, 0x0A,
             0x0D, 0x0A, 0x0D, 0x0A, 0x0D, 0x0A, 0x0D, 0x0A, 0x0D, 0x0A] \<and>
   fst (WriteTestFile (smooth_crt 0) [''x:'', ''temp'', ''single_thread'']
          (InitPortionWithRandomData (\<lambda>i. 10) []) \<lparr>clock = 0, files = Map.empty\<rparr>)
     = Inr 0 \<and>
   map_option length
     (files (snd (WriteTestFile (smooth_crt 0) [''x:'', ''temp'', ''single_thread'']
          (InitPortionWithRandomData (\<lambda>i. 10) []) \<lparr>clock = 0, files = Map.empty\<rparr>))
       [''x:'', ''temp'', ''single_thread''])
     = Some 1310720000 \<and>
   length (InitPortionWithRandomData (\<lambda>i. 10) []) * 10 = 1048576000 \<and>
   fst (WriteTestFile \<lparr>fopen_err = 0, fopen_null = False, fwrite_room = (\<lambda>i. 1000), fclose_lost = 0,
          fopen_cost = 3, fwrite_cost = (\<lambda>i. 1), fclose_cost = 5\<rparr> [''x:'', ''temp'', ''single_thread'']
          [1, 2] \<lparr>clock = 0, files = Map.empty\<rparr>)
     = Inr 10 \<and>
   files (snd (WriteTestFile \<lparr>fopen_err = 0, fopen_null = False, fwrite_room = (\<lambda>i. 1000), fclose_lost = 0,
          fopen_cost = 3, fwrite_cost = (\<lambda>i. 1), fclose_cost = 5\<rparr> [''x:'', ''temp'', ''single_thread'']
          [1, 2] \<lparr>clock = 0, files = Map.empty\<rparr>))
       [''x:'', ''temp'', ''single_thread'']
     = Some [1, 2, 1, 2, 1, 2, 1, 2, 1, 2, 1, 2, 1, 2, 1, 2, 1, 2, 1, 2] \<and>
   fst (WriteTestFile \<lparr>fopen_err = 0, fopen_null = False, fwrite_room = (\<lambda>i. 1000), fclose_lost = 3,
          fopen_cost = 3, fwrite_cost = (\<lambda>i. 1), fclose_cost = 5\<rparr> [''x:'', ''temp'', ''single_thread'']
          [1, 2] \<lparr>clock = 0, files = Map.empty\<rparr>)
     = Inr 10 \<and>
   files (snd (WriteTestFile \<lparr>fopen_err = 0, fopen_null = False, fwrite_room = (\<lambda>i. 1000), fclose_lost = 3,
          fopen_cost = 3, fwrite_cost = (\<lambda>i. 1), fclose_cost = 5\<rparr> [''x:'', ''temp'', ''single_thread'']
          [1, 2] \<lparr>clock = 0, files = Map.empty\<rparr>))
       [''x:'', ''temp'', ''single_thread'']
     = Some [1, 2, 1, 2, 1, 2, 1, 2, 1, 2, 1, 2, 1, 2, 1, 2, 1] \<and>
   fst (WriteTestFile \<lparr>fopen_err = 13, fopen_null = True, fwrite_room = (\<lambda>i. 1000), fclose_lost = 0,
          fopen_cost = 3, fwrite_cost = (\<lambda>i. 1), fclose_cost = 5\<rparr> [''x:'', ''temp'', ''single_thread'']
          [1, 2] \<lparr>clock = 0, files = Map.empty\<rparr>)
     = Inl (CreateFailed [''x:'', ''temp'', ''single_thread''] 13) \<and>
   (3::nat) < g_portionsCount \<and>
   fst (WriteTestFile \<lparr>fopen_err = 0, fopen_null = False, fwrite_room = (\<lambda>i. if i < 3 then 2 else 1),
          fclose_lost = 0, fopen_cost = 3, fwrite_cost = (\<lambda>i. 1), fclose_cost = 5\<rparr>
          [''x:'', ''temp'', ''single_thread''] [1, 2] \<lparr>clock = 0, files = Map.empty\<rparr>)
     = Inl (WritePortionFailed 3 [''x:'', ''temp'', ''single_thread'']) \<and>
   files (snd (WriteTestFile \<lparr>fopen_err = 0, fopen_null = False, fwrite_room = (\<lambda>i. if i < 3 then 2 else 1),
          fclose_lost = 0, fopen_cost = 3, fwrite_cost = (\<lambda>i. 1), fclose_cost = 5\<rparr>
          [''x:'', ''temp'', ''single_thread''] [1, 2] \<lparr>clock = 0, files = Map.empty\<rparr>))
       [''x:'', ''temp'', ''single_thread'']
     = Some [1, 2, 1, 2, 1, 2, 1]"
proof -
  let ?p = "[''x:'', ''temp'', ''single_thread'']"
  let ?w = "\<lparr>clock = 0, files = Map.empty\<rparr>"
  let ?ok = "\<lparr>fopen_err = 0, fopen_null = False, fwrite_room = (\<lambda>i. 1000), fclose_lost = 0,
          fopen_cost = 3, fwrite_cost = (\<lambda>i. 1), fclose_cost = 5\<rparr>"
  let ?no = "\<lparr>fopen_err = 13, fopen_null = True, fwrite_room = (\<lambda>i. 1000), fclose_lost = 0,
          fopen_cost = 3, fwrite_cost = (\<lambda>i. 1), fclose_cost = 5\<rparr>"
  let ?short = "\<lparr>fopen_err = 0, fopen_null = False, fwrite_room = (\<lambda>i. if i < 3 then 2 else 1),
          fclose_lost = 0, fopen_cost = 3, fwrite_cost = (\<lambda>i. 1), fclose_cost = 5\<rparr>"
  have lf: "fst (WriteTestFile ?ok ?p [0x0A] ?w) = Inr 10"
    by (simp add: WriteTestFile_ok g_portionsCount_def)
  have ok: "fst (WriteTestFile ?ok ?p [1, 2] ?w) = Inr 10"
    by (simp add: WriteTestFile_ok g_portionsCount_def)
  have t: "flushed ?ok (text_mode (concat (replicate 10 [0x0A])))
      = [0x0D, 0x0A, 0x0D, 0x0A, 0x0D, 0x0A, 0x0D, 0x0A, 0x0D, 0x0A,
         0x0D, 0x0A, 0x0D, 0x0A, 0x0D, 0x0A, 0x0D, 0x0A, 0x0D, 0x0A]"
    by (simp add: flushed_def replicate_10 text_mode_def)
  have a0: "files (snd (WriteTestFile ?ok ?p [0x0A] ?w)) ?p
        = Some [0x0D, 0x0A, 0x0D, 0x0A, 0x0D, 0x0A, 0x0D, 0x0A, 0x0D, 0x0A,
                0x0D, 0x0A, 0x0D, 0x0A, 0x0D, 0x0A, 0x0D, 0x0A, 0x0D, 0x0A]"
    using WriteTestFile_outcome [of ?ok ?p "[0x0A]" ?w, THEN conjunct2, THEN conjunct2,
        THEN conjunct2, THEN spec, THEN mp, OF lf, THEN conjunct2, THEN conjunct1]
    by (simp only: t)
  have plain: "fclose_lost ?ok = 0 \<and> 0x0A \<notin> set [1, 2 :: byte]" by simp
  have a: "files (snd (WriteTestFile ?ok ?p [1, 2] ?w)) ?p
        = Some [1, 2, 1, 2, 1, 2, 1, 2, 1, 2, 1, 2, 1, 2, 1, 2, 1, 2, 1, 2]"
    using WriteTestFile_outcome [of ?ok ?p "[1, 2]" ?w, THEN conjunct2, THEN conjunct2,
        THEN conjunct2, THEN spec, THEN mp, OF ok, THEN conjunct2, THEN conjunct2, THEN conjunct2,
        THEN mp, OF plain, THEN conjunct1]
    by (simp add: replicate_10)
  have b: "fst (WriteTestFile ?no ?p [1, 2] ?w) = Inl (CreateFailed ?p 13)"
    using WriteTestFile_outcome [of ?no ?p "[1, 2]" ?w, THEN conjunct2, THEN conjunct1] by simp
  have c: "fst (WriteTestFile ?short ?p [1, 2] ?w) = Inl (WritePortionFailed 3 ?p) \<and>
      files (snd (WriteTestFile ?short ?p [1, 2] ?w)) ?p = Some [1, 2, 1, 2, 1, 2, 1]"
    using WriteTestFile_outcome [of ?short ?p "[1, 2]" ?w, THEN conjunct2, THEN conjunct2,
        THEN conjunct1, rule_format, of 3]
    by (simp add: g_portionsCount_def numeral_3_eq_3 flushed_def text_mode_def replicate_10)
  have g: "(3::nat) < g_portionsCount" by (simp add: g_portionsCount_def)
  let ?block = "InitPortionWithRandomData (\<lambda>i. 10) []"
  have len: "length ?block = 104857600"
    by (simp add: length_InitPortion g_portionSize_def)
  have run: "fst (WriteTestFile (smooth_crt 0) ?p ?block ?w) = Inr 0"
    by (simp add: WriteTestFile_ok smooth_crt_def len)
  have all: "flushed (smooth_crt 0) bs = bs" for bs
    by (simp add: flushed_def smooth_crt_def)
  have r: "map_option length (files (snd (WriteTestFile (smooth_crt 0) ?p ?block ?w)) ?p)
      = Some 1310720000"
    using WriteTestFile_outcome [of "smooth_crt 0" ?p ?block ?w, THEN conjunct2, THEN conjunct2,
        THEN conjunct2, THEN spec, THEN mp, OF run, THEN conjunct2]
    by (simp add: all len line_feeds)
  have len10: "length ?block * 10 = 1048576000" by (simp add: len)
  let ?lost = "\<lparr>fopen_err = 0, fopen_null = False, fwrite_room = (\<lambda>i. 1000), fclose_lost = 3,
          fopen_cost = 3, fwrite_cost = (\<lambda>i. 1), fclose_cost = 5\<rparr>"
  have l: "fst (WriteTestFile ?lost ?p [1, 2] ?w) = Inr 10"
    by (simp add: WriteTestFile_ok g_portionsCount_def)
  have l': "files (snd (WriteTestFile ?lost ?p [1, 2] ?w)) ?p
      = Some [1, 2, 1, 2, 1, 2, 1, 2, 1, 2, 1, 2, 1, 2, 1, 2, 1]"
    using WriteTestFile_outcome [of ?lost ?p "[1, 2]" ?w, THEN conjunct2, THEN conjunct2,
        THEN conjunct2, THEN spec, THEN mp, OF l, THEN conjunct2, THEN conjunct1]
    by (simp add: flushed_def text_mode_def replicate_10)
  show ?thesis using lf a0 run r len10 ok a l l' b c g by (intro conjI) simp_all
qed

text \<open>
  C7, as the code has it. For every successful call, the duration returned is the time the
  ten writes take: the stopwatch starts when the file is open, just before the first
  write, and is read just after the last write, before \<^verbatim>\<open>fclose\<close>. The time \<^verbatim>\<open>fclose\<close> takes
  is not in the duration: the call ends that much later than the stopwatch was read.
\<close>

theorem WriteTestFile_interval:
  "fst (WriteTestFile c p portion w) = Inr d \<Longrightarrow>
   d = int (\<Sum>i<g_portionsCount. fwrite_cost c i) \<and>
   d = (clock (snd (WriteTestFile c p portion w)) - int (fclose_cost c)) - clock (snd (fopen_s c p w))"
proof (cases rule: WriteTestFile_cases [where c = c and p = p and portion = portion and w = w])
  case denied
  assume "fst (WriteTestFile c p portion w) = Inr d"
  then show ?thesis using denied by simp
next
  case (short k)
  assume "fst (WriteTestFile c p portion w) = Inr d"
  then show ?thesis using short by simp
next
  case ok
  assume "fst (WriteTestFile c p portion w) = Inr d"
  then show ?thesis using ok by (auto simp: fopen_s_def tick_def)
qed

theorem WriteTestFile_interval_witness:
  "fst (WriteTestFile \<lparr>fopen_err = 0, fopen_null = False, fwrite_room = (\<lambda>i. 1000), fclose_lost = 0,
          fopen_cost = 3, fwrite_cost = (\<lambda>i. 1), fclose_cost = 5\<rparr> [''x:'', ''temp'', ''single_thread'']
          [1, 2] \<lparr>clock = 0, files = Map.empty\<rparr>)
     = Inr 10 \<and>
   (10::int) = (clock (snd (WriteTestFile \<lparr>fopen_err = 0, fopen_null = False, fwrite_room = (\<lambda>i. 1000),
          fclose_lost = 0, fopen_cost = 3, fwrite_cost = (\<lambda>i. 1), fclose_cost = 5\<rparr>
          [''x:'', ''temp'', ''single_thread''] [1, 2] \<lparr>clock = 0, files = Map.empty\<rparr>)) - 5) - 3"
proof -
  let ?p = "[''x:'', ''temp'', ''single_thread'']"
  let ?w = "\<lparr>clock = 0, files = Map.empty\<rparr>"
  let ?ok = "\<lparr>fopen_err = 0, fopen_null = False, fwrite_room = (\<lambda>i. 1000), fclose_lost = 0,
          fopen_cost = 3, fwrite_cost = (\<lambda>i. 1), fclose_cost = 5\<rparr>"
  have ok: "fst (WriteTestFile ?ok ?p [1, 2] ?w) = Inr 10"
    by (simp add: WriteTestFile_ok g_portionsCount_def)
  show ?thesis
    using WriteTestFile_interval [OF ok] ok by (simp add: fopen_s_def tick_def)
qed

text \<open>
  C7 as it is stated fails: with ten writes of 1 ns and an \<^verbatim>\<open>fclose\<close> of 5 ns, the call
  returns 10 ns, and from just before the first write to just after the file is closed
  15 ns pass.
\<close>

theorem WriteTestFile_interval_counterexample:
  "fst (WriteTestFile \<lparr>fopen_err = 0, fopen_null = False, fwrite_room = (\<lambda>i. 1000), fclose_lost = 0,
          fopen_cost = 3, fwrite_cost = (\<lambda>i. 1), fclose_cost = 5\<rparr> [''x:'', ''temp'', ''single_thread'']
          [1, 2] \<lparr>clock = 0, files = Map.empty\<rparr>)
     = Inr 10 \<and>
   clock (snd (WriteTestFile \<lparr>fopen_err = 0, fopen_null = False, fwrite_room = (\<lambda>i. 1000), fclose_lost = 0,
          fopen_cost = 3, fwrite_cost = (\<lambda>i. 1), fclose_cost = 5\<rparr> [''x:'', ''temp'', ''single_thread'']
          [1, 2] \<lparr>clock = 0, files = Map.empty\<rparr>))
    - clock (snd (fopen_s \<lparr>fopen_err = 0, fopen_null = False, fwrite_room = (\<lambda>i. 1000), fclose_lost = 0,
          fopen_cost = 3, fwrite_cost = (\<lambda>i. 1), fclose_cost = 5\<rparr> [''x:'', ''temp'', ''single_thread'']
          \<lparr>clock = 0, files = Map.empty\<rparr>))
     = 15"
  by (simp add: WriteTestFile_ok g_portionsCount_def fopen_s_def tick_def)

section \<open>The sweep\<close>

lemma sweep_stop:
  "\<not> slowTests st < g_maxSlowTests \<Longrightarrow>
   sweep env dirPath portion w st = Some (Inr (threadsCount st - 1))"
  by (subst sweep.simps) simp

lemma sweep_leave:
  "slowTests st < g_maxSlowTests \<Longrightarrow> trial env dirPath portion w st = Inl r \<Longrightarrow>
   sweep env dirPath portion w st = Some r"
  by (subst sweep.simps) simp

lemma sweep_step:
  "slowTests st < g_maxSlowTests \<Longrightarrow> trial env dirPath portion w st = Inr st' \<Longrightarrow>
   sweep env dirPath portion w st = sweep env dirPath portion w st'"
  by (subst sweep.simps) simp

lemma join_all_sum: "join_all rs acc = acc + sum_list rs"
  by (induction rs arbitrary: acc) simp_all

lemma length_run_threads: "length (run_threads crts dirPath portion w n) = n"
  by (simp add: run_threads_def)

lemma join_all_run_threads:
  "join_all (map result_of (run_threads crts dirPath portion w n)) 0 =
     (\<Sum>i<n. result_of (thread_body (crts i) dirPath i portion w))"
  by (simp add: join_all_sum run_threads_def comp_def interv_sum_list_conv_sum_set_nat
      atLeast0LessThan)

lemma trial_Inr:
  "trial env dirPath portion w st = Inr st' \<Longrightarrow>
   threadsCount st' = threadsCount st + 1 \<and>
   slowTests st' = (if fless (lastSpeed st') (lastSpeed st) then slowTests st + 1 else 0) \<and>
   lastSpeed st' =
     CalculateSpeed portion (threadsCount st)
       (join_all (map result_of
          (run_threads (thread_crt env (threadsCount st)) dirPath portion w (threadsCount st))) 0
        div threadsCount st)"
  by (auto simp: trial_def Let_def split: if_splits)

text \<open>A thread that throws ends the sweep at its trial.\<close>

lemma trial_bad:
  assumes "i < threadsCount st"
    and "thread_body (thread_crt env (threadsCount st) i) dirPath i portion w = Inl e"
  shows "trial env dirPath portion w st = Inl (Inr (threadsCount st))"
proof -
  have "thread_body (thread_crt env (threadsCount st) i) dirPath i portion w
      \<in> set (run_threads (thread_crt env (threadsCount st)) dirPath portion w (threadsCount st))"
    using assms(1) by (auto simp: run_threads_def)
  then have "list_ex isl
      (run_threads (thread_crt env (threadsCount st)) dirPath portion w (threadsCount st))"
    unfolding list_ex_iff using assms(2) by (metis sum.disc(1))
  then show ?thesis by (simp add: trial_def Let_def)
qed

lemma trial_Inr_threads:
  assumes "trial env dirPath portion w st = Inr st'" and "i < threadsCount st"
  shows "\<not> isl (thread_body (thread_crt env (threadsCount st) i) dirPath i portion w)"
proof
  assume "isl (thread_body (thread_crt env (threadsCount st) i) dirPath i portion w)"
  then obtain e where "thread_body (thread_crt env (threadsCount st) i) dirPath i portion w = Inl e"
    by (auto simp: isl_def)
  from trial_bad [OF assms(2) this] assms(1) show False by simp
qed

text \<open>A run of trials that all go on is a run of the loop.\<close>

lemma sweep_prefix:
  "(\<And>i. i < n \<Longrightarrow> slowTests (sts i) < g_maxSlowTests \<and>
      trial env dirPath portion w (sts i) = Inr (sts (Suc i))) \<Longrightarrow>
   sweep env dirPath portion w (sts 0) = sweep env dirPath portion w (sts n)"
proof (induction n)
  case 0
  show ?case by simp
next
  case (Suc n)
  have "sweep env dirPath portion w (sts 0) = sweep env dirPath portion w (sts n)"
    using Suc.prems by (intro Suc.IH) simp
  also have "\<dots> = sweep env dirPath portion w (sts (Suc n))"
    using Suc.prems [of n] by (intro sweep_step) simp_all
  finally show ?case .
qed

text \<open>
  A loop that goes on from every state of an infinite run returns nothing: no finite
  unfolding of the loop returns from a state of the run.
\<close>

lemma sweep_forever:
  assumes run: "\<And>i. slowTests (sts i) < g_maxSlowTests \<and>
      trial env dirPath portion w (sts i) = Inr (sts (Suc i))"
  shows "sweep env dirPath portion w (sts 0) = None"
proof (rule ccontr)
  assume "sweep env dirPath portion w (sts 0) \<noteq> None"
  then obtain y where y: "sweep env dirPath portion w (sts 0) = Some y" by auto
  have "(env, dirPath, portion, w) = (env, dirPath, portion, w) \<longrightarrow> (\<forall>j. sts 0 \<noteq> sts j)"
  proof (rule sweep.raw_induct
      [where P = "\<lambda>env' dirPath' portion' w' st y'.
          (env', dirPath', portion', w') = (env, dirPath, portion, w) \<longrightarrow> (\<forall>j. st \<noteq> sts j)", OF _ y])
    fix sweep' env' dirPath' portion' w' st y'
    assume IH: "\<And>e d p v s r. sweep' e d p v s = Some r \<Longrightarrow>
        (e, d, p, v) = (env, dirPath, portion, w) \<longrightarrow> (\<forall>j. s \<noteq> sts j)"
      and body: "(if slowTests st < g_maxSlowTests
          then case trial env' dirPath' portion' w' st of Inl r \<Rightarrow> Some r
               | Inr st' \<Rightarrow> sweep' env' dirPath' portion' w' st'
          else Some (Inr (threadsCount st - 1))) = Some y'"
    show "(env', dirPath', portion', w') = (env, dirPath, portion, w) \<longrightarrow> (\<forall>j. st \<noteq> sts j)"
    proof (intro impI allI notI)
      fix j
      assume eq: "(env', dirPath', portion', w') = (env, dirPath, portion, w)" and st: "st = sts j"
      have "sweep' env dirPath portion w (sts (Suc j)) = Some y'"
        using body run [of j] eq st by simp
      from IH [OF this] show False by blast
    qed
  qed
  then show False by blast
qed

text \<open>
  Along a run that starts with the counter at 0 and has no two regressions in a row, the
  counter is 1 after a regression and 0 otherwise.
\<close>

lemma slow_invariant:
  assumes run: "\<And>i. i < n \<Longrightarrow> trial env dirPath portion w (sts i) = Inr (sts (Suc i))"
    and start: "slowTests (sts 0) = 0"
    and nodouble: "\<And>j. Suc j < n \<Longrightarrow> \<not> (regress sts j \<and> regress sts (Suc j))"
  shows "i \<le> n \<Longrightarrow> slowTests (sts i) = (if 0 < i \<and> regress sts (i - 1) then 1 else 0)"
proof (induction i)
  case 0
  show ?case using start by simp
next
  case (Suc i)
  have IH: "slowTests (sts i) = (if 0 < i \<and> regress sts (i - 1) then 1 else 0)"
    using Suc by simp
  have step: "slowTests (sts (Suc i)) = (if regress sts i then slowTests (sts i) + 1 else 0)"
    using trial_Inr [OF run [of i]] Suc.prems by (simp add: regress_def)
  show ?case
  proof (cases "regress sts i")
    case False
    then show ?thesis using step by simp
  next
    case True
    have "\<not> (0 < i \<and> regress sts (i - 1))"
    proof
      assume a: "0 < i \<and> regress sts (i - 1)"
      then have "Suc (i - 1) < n" using Suc.prems by simp
      from nodouble [OF this] a True show False by simp
    qed
    then show ?thesis using step IH True by simp
  qed
qed

lemma threads_invariant:
  assumes run: "\<And>i. i < n \<Longrightarrow> trial env dirPath portion w (sts i) = Inr (sts (Suc i))"
  shows "i \<le> n \<Longrightarrow> threadsCount (sts i) = threadsCount (sts 0) + i"
proof (induction i)
  case 0
  show ?case by simp
next
  case (Suc i)
  then show ?case using trial_Inr [OF run [of i]] by simp
qed

subsection \<open>The scenarios\<close>

lemma length_zero_block: "length (zero_block n) = n"
  by (simp add: zero_block_def)

lemma WriteTestFile_smooth:
  assumes "length portion \<le> 2 ^ 64"
  shows "fst (WriteTestFile (smooth_crt d) p portion w) = Inr (int d)"
proof -
  have "0 \<in> {..<g_portionsCount}" by (simp add: g_portionsCount_def)
  then have "(\<Sum>j<g_portionsCount. if j = 0 then d else 0) = d"
    by (simp add: sum.delta)
  then have s: "(\<Sum>j<g_portionsCount. fwrite_cost (smooth_crt d) j) = d"
    by (simp add: smooth_crt_def)
  have "fst (WriteTestFile (smooth_crt d) p portion w) =
      Inr (int (\<Sum>j<g_portionsCount. fwrite_cost (smooth_crt d) j))"
  proof (subst WriteTestFile_ok)
  qed (use assms in \<open>simp_all add: smooth_crt_def\<close>)
  then show ?thesis by (simp only: s)
qed

lemma thread_body_smooth:
  "length portion \<le> 2 ^ 64 \<Longrightarrow> thread_body (smooth_crt d) dirPath i portion w = Inr (int d)"
  by (simp add: thread_body_def WriteTestFile_smooth)

lemma thread_body_denied:
  "thread_body denied_crt dirPath i portion w =
     Inl (CreateFailed (dirPath @ [GetFileNameForThread i]) 13)"
  by (simp add: thread_body_def WriteTestFile_denied denied_crt_def)

lemma trial_cong:
  "thread_crt env (threadsCount st) = thread_crt env' (threadsCount st) \<Longrightarrow>
   trial env dirPath portion w st = trial env' dirPath portion w st"
  by (simp add: trial_def)

text \<open>A trial in which every thread takes \<open>dur n\<close> nanoseconds has that average.\<close>

lemma trial_smooth:
  assumes "0 < threadsCount st" "length portion \<le> 2 ^ 64" "0 < dur (threadsCount st)"
  shows "trial (smooth_env d0 dur) dirPath portion w st =
     Inr \<lparr>slowTests =
            (if fless (CalculateSpeed portion (threadsCount st) (dur (threadsCount st))) (lastSpeed st)
             then slowTests st + 1 else 0),
          threadsCount = threadsCount st + 1,
          lastSpeed = CalculateSpeed portion (threadsCount st) (dur (threadsCount st))\<rparr>"
proof -
  define n where "n = threadsCount st"
  have out: "run_threads (thread_crt (smooth_env d0 dur) n) dirPath portion w n
      = map (\<lambda>j. Inr (int (dur n))) [0..<n]"
    using assms(2) by (simp add: run_threads_def smooth_env_def thread_body_smooth)
  have nobad: "\<not> list_ex isl (run_threads (thread_crt (smooth_env d0 dur) n) dirPath portion w n)"
    unfolding out by (simp add: list_ex_iff)
  have sum: "join_all (map result_of
      (run_threads (thread_crt (smooth_env d0 dur) n) dirPath portion w n)) 0 = n * dur n"
    unfolding out by (simp add: join_all_sum result_of_def comp_def sum_list_triv)
  have avg: "n * dur n div n = dur n" "n \<noteq> 0" "dur n \<noteq> 0"
    using assms(1,3) by (simp_all add: n_def)
  show ?thesis
    unfolding trial_def Let_def n_def [symmetric]
    by (simp only: nobad sum avg if_False)
qed

lemmas float_eval = fl_def round_sig.simps rne_def float_of_nat_def

lemmas speed_eval = CalculateSpeed_def g_portionsCount_def length_zero_block float_eval

lemma speed_empty: "CalculateSpeed [] n (Suc 0) = Finite 0"
  by (simp add: CalculateSpeed_def float_eval)

subsection \<open>The regression counter\<close>

text \<open>
  C5. A trial after which the loop goes on leaves its throughput in \<open>lastSpeed\<close>, whether
  it regressed or not, and the counter \<open>slowTests\<close> one higher if that throughput is
  strictly below the previous \<open>lastSpeed\<close>, and at 0 otherwise.
\<close>

theorem trial_counter_update:
  assumes "trial env dirPath portion w st = Inr st'"
  shows "lastSpeed st' =
           CalculateSpeed portion (threadsCount st)
             (join_all (map result_of
                (run_threads (thread_crt env (threadsCount st)) dirPath portion w (threadsCount st))) 0
              div threadsCount st) \<and>
         slowTests st' = (if fless (lastSpeed st') (lastSpeed st) then slowTests st + 1 else 0)"
  using trial_Inr [OF assms] by simp

theorem trial_counter_update_witness:
  "trial (smooth_env 0 (\<lambda>n. 2000000000)) [''x:'', ''temp''] (zero_block 9437184)
      \<lparr>clock = 0, files = Map.empty\<rparr> \<lparr>slowTests = 0, threadsCount = 2, lastSpeed = Finite 100\<rparr>
     = Inr \<lparr>slowTests = 1, threadsCount = 3, lastSpeed = Finite 90\<rparr> \<and>
   trial (smooth_env 0 (\<lambda>n. 2000000000)) [''x:'', ''temp''] (zero_block 9437184)
      \<lparr>clock = 0, files = Map.empty\<rparr> \<lparr>slowTests = 1, threadsCount = 2, lastSpeed = Finite 80\<rparr>
     = Inr \<lparr>slowTests = 0, threadsCount = 3, lastSpeed = Finite 90\<rparr> \<and>
   slowTests \<lparr>slowTests = 1, threadsCount = 3, lastSpeed = Finite 90\<rparr>
     = (if fless (Finite 90) (Finite 100) then 0 + 1 else 0) \<and>
   slowTests \<lparr>slowTests = 0, threadsCount = 3, lastSpeed = Finite 90\<rparr>
     = (if fless (Finite 90) (Finite 80) then 1 + 1 else 0)"
proof -
  let ?env = "smooth_env 0 (\<lambda>n. 2000000000)"
  let ?d = "[''x:'', ''temp'']"
  let ?w = "\<lparr>clock = 0, files = Map.empty\<rparr>"
  let ?p = "zero_block 9437184"
  have a: "trial ?env ?d ?p ?w \<lparr>slowTests = 0, threadsCount = 2, lastSpeed = Finite 100\<rparr>
      = Inr \<lparr>slowTests = 1, threadsCount = 3, lastSpeed = Finite 90\<rparr>"
    by (simp add: trial_smooth speed_eval)
  have b: "trial ?env ?d ?p ?w \<lparr>slowTests = 1, threadsCount = 2, lastSpeed = Finite 80\<rparr>
      = Inr \<lparr>slowTests = 0, threadsCount = 3, lastSpeed = Finite 90\<rparr>"
    by (simp add: trial_smooth speed_eval)
  have c: "slowTests \<lparr>slowTests = 1, threadsCount = 3, lastSpeed = Finite 90\<rparr>
      = (if fless (Finite 90) (Finite 100) then 0 + 1 else 0)"
    using trial_counter_update [OF a, THEN conjunct2] by simp
  have d: "slowTests \<lparr>slowTests = 0, threadsCount = 3, lastSpeed = Finite 90\<rparr>
      = (if fless (Finite 90) (Finite 80) then 1 + 1 else 0)"
    using trial_counter_update [OF b, THEN conjunct2] by simp
  show ?thesis
    using a b c d by (intro conjI)
qed

subsection \<open>The throughput of a trial\<close>

text \<open>
  C3, as the code has it. In a trial with \<open>N\<close> threads after which the loop goes on, no
  thread has thrown, and the throughput is a quotient in single precision. The dividend
  is the whole number of MiB in \<open>blockSize * 10 * N\<close> bytes, a product of \<^verbatim>\<open>size_t\<close> that is
  taken modulo \<open>2^64\<close>: the two divisions by 1024 are integer divisions and drop the
  rest. The divisor is the average duration in seconds: the sum of the durations in
  nanoseconds divided by \<open>N\<close>, an integer division again, converted and divided by 1000
  three times. The thread count is one that \<^verbatim>\<open>size_t\<close> holds, and the sum of the durations
  one that \<^verbatim>\<open>uint64_t\<close> holds.
\<close>

theorem trial_throughput:
  assumes "trial env dirPath portion w st = Inr st'"
    and "threadsCount st < 2 ^ 64"
    and "(\<Sum>i<threadsCount st.
            nat (projr (thread_body (thread_crt env (threadsCount st) i) dirPath i portion w))) < 2 ^ 64"
  shows "(\<forall>i<threadsCount st.
            \<not> isl (thread_body (thread_crt env (threadsCount st) i) dirPath i portion w)) \<and>
         lastSpeed st' =
           fdiv (float_of_nat ((length portion * 10 * threadsCount st) mod 2 ^ 64 div 1024 div 1024))
             (fdiv (fdiv (fdiv
                (float_of_nat
                   ((\<Sum>i<threadsCount st.
                        nat (projr (thread_body (thread_crt env (threadsCount st) i) dirPath i portion w)))
                    div threadsCount st))
                (float_of_nat 1000)) (float_of_nat 1000)) (float_of_nat 1000))"
proof -
  let ?n = "threadsCount st"
  let ?out = "\<lambda>i. thread_body (thread_crt env ?n i) dirPath i portion w"
  have ok: "\<forall>i<?n. \<not> isl (?out i)"
    using trial_Inr_threads [OF assms(1)] by blast
  have "(\<Sum>i<?n. result_of (?out i)) = (\<Sum>i<?n. nat (projr (?out i)))"
  proof (rule sum.cong)
    fix i assume "i \<in> {..<?n}"
    then have "\<not> isl (?out i)" using ok by simp
    then show "result_of (?out i) = nat (projr (?out i))"
      by (cases "?out i") (simp_all add: result_of_def)
  qed simp
  then have avg: "join_all (map result_of (run_threads (thread_crt env ?n) dirPath portion w ?n)) 0
      = (\<Sum>i<?n. nat (projr (?out i)))"
    by (simp add: join_all_run_threads)
  have "lastSpeed st' = CalculateSpeed portion ?n
      (join_all (map result_of (run_threads (thread_crt env ?n) dirPath portion w ?n)) 0 div ?n)"
    using trial_Inr [OF assms(1)] by simp
  then have "lastSpeed st' = CalculateSpeed portion ?n ((\<Sum>i<?n. nat (projr (?out i))) div ?n)"
    by (simp only: avg)
  then show ?thesis
    using ok unfolding CalculateSpeed_def g_portionsCount_def by blast
qed

lemma sum_lessThan_2: "(\<Sum>i<2. f i) = f 0 + f (1::nat)"
  by (simp add: numeral_2_eq_2)

text \<open>
  Two trials: two threads that write 9 MiB ten times in 2 s each, 90 MiB/s; and \<open>2^35\<close>
  threads on the full block in 0.1 s each, where the product of the sizes has passed
  \<open>2^64\<close>.
\<close>

theorem trial_throughput_witness:
  "trial (smooth_env 0 (\<lambda>n. 2000000000)) [''x:'', ''temp''] (zero_block 9437184)
      \<lparr>clock = 0, files = Map.empty\<rparr> \<lparr>slowTests = 0, threadsCount = 2, lastSpeed = Finite 100\<rparr>
     = Inr \<lparr>slowTests = 1, threadsCount = 3, lastSpeed = Finite 90\<rparr> \<and>
   Finite 90 = fdiv (float_of_nat ((9437184 * 10 * 2) mod 2 ^ 64 div 1024 div 1024))
             (fdiv (fdiv (fdiv (float_of_nat ((2000000000 + 2000000000) div 2))
                (float_of_nat 1000)) (float_of_nat 1000)) (float_of_nat 1000)) \<and>
   trial (smooth_env 0 (\<lambda>n. 100000000)) [''x:'', ''temp''] (zero_block 104857600)
      \<lparr>clock = 0, files = Map.empty\<rparr>
      \<lparr>slowTests = 0, threadsCount = 34359738368, lastSpeed = Finite 0\<rparr>
     = Inr \<lparr>slowTests = 0, threadsCount = 34359738369, lastSpeed = Finite 167675523235840\<rparr> \<and>
   Finite 167675523235840 =
     fdiv (float_of_nat ((104857600 * 10 * 34359738368) mod 2 ^ 64 div 1024 div 1024))
       (fdiv (fdiv (fdiv (float_of_nat (34359738368 * 100000000 div 34359738368))
          (float_of_nat 1000)) (float_of_nat 1000)) (float_of_nat 1000)) \<and>
   (104857600 * 10 * 34359738368) mod 2 ^ 64 div 1024 div 1024 = (16767552323584 :: nat) \<and>
   104857600 * 10 * 34359738368 div 1024 div 1024 = (34359738368000 :: nat)"
proof -
  let ?env = "smooth_env 0 (\<lambda>n. 2000000000)"
  let ?env' = "smooth_env 0 (\<lambda>n. 100000000)"
  let ?d = "[''x:'', ''temp'']"
  let ?w = "\<lparr>clock = 0, files = Map.empty\<rparr>"
  let ?p = "zero_block 9437184"
  let ?p' = "zero_block 104857600"
  have a: "trial ?env ?d ?p ?w \<lparr>slowTests = 0, threadsCount = 2, lastSpeed = Finite 100\<rparr>
     = Inr \<lparr>slowTests = 1, threadsCount = 3, lastSpeed = Finite 90\<rparr>"
    by (simp add: trial_smooth speed_eval)
  have b: "(\<Sum>i<2. nat (projr (thread_body (thread_crt ?env 2 i) ?d i ?p ?w))) = 2000000000 + 2000000000"
    by (simp add: smooth_env_def thread_body_smooth sum_lessThan_2 length_zero_block)
  have a': "trial ?env' ?d ?p' ?w \<lparr>slowTests = 0, threadsCount = 34359738368, lastSpeed = Finite 0\<rparr>
     = Inr \<lparr>slowTests = 0, threadsCount = 34359738369, lastSpeed = Finite 167675523235840\<rparr>"
    by (simp add: trial_smooth speed_eval)
  have b': "(\<Sum>i<34359738368. nat (projr (thread_body (thread_crt ?env' 34359738368 i) ?d i ?p' ?w)))
      = 34359738368 * 100000000"
    by (simp add: smooth_env_def thread_body_smooth length_zero_block)
  have c: "Finite 90 = fdiv (float_of_nat ((9437184 * 10 * 2) mod 2 ^ 64 div 1024 div 1024))
             (fdiv (fdiv (fdiv (float_of_nat ((2000000000 + 2000000000) div 2))
                (float_of_nat 1000)) (float_of_nat 1000)) (float_of_nat 1000))"
    using trial_throughput [OF a] by (simp add: b length_zero_block)
  have c': "Finite 167675523235840 =
     fdiv (float_of_nat ((104857600 * 10 * 34359738368) mod 2 ^ 64 div 1024 div 1024))
       (fdiv (fdiv (fdiv (float_of_nat (34359738368 * 100000000 div 34359738368))
          (float_of_nat 1000)) (float_of_nat 1000)) (float_of_nat 1000))"
    using trial_throughput [OF a'] by (simp add: b' length_zero_block)
  have e: "(104857600 * 10 * 34359738368) mod 2 ^ 64 div 1024 div 1024 = (16767552323584 :: nat)"
    "104857600 * 10 * 34359738368 div 1024 div 1024 = (34359738368000 :: nat)"
    by simp_all
  show ?thesis using a c a' c' e by (intro conjI)
qed

text \<open>
  C3 as it is stated fails: two threads that each write a block of 100 bytes ten times in
  one second have written 2000 bytes in a second, and the throughput of the trial is 0.
\<close>

theorem trial_throughput_counterexample:
  "trial (smooth_env 0 (\<lambda>n. 1000000000)) [''x:'', ''temp''] (zero_block 100)
      \<lparr>clock = 0, files = Map.empty\<rparr> \<lparr>slowTests = 0, threadsCount = 2, lastSpeed = Finite 0\<rparr>
     = Inr \<lparr>slowTests = 0, threadsCount = 3, lastSpeed = Finite 0\<rparr> \<and>
   thread_body (thread_crt (smooth_env 0 (\<lambda>n. 1000000000)) 2 0) [''x:'', ''temp''] 0 (zero_block 100)
      \<lparr>clock = 0, files = Map.empty\<rparr> = Inr 1000000000 \<and>
   thread_body (thread_crt (smooth_env 0 (\<lambda>n. 1000000000)) 2 1) [''x:'', ''temp''] 1 (zero_block 100)
      \<lparr>clock = 0, files = Map.empty\<rparr> = Inr 1000000000 \<and>
   real (length (zero_block 100) * 10 * 2) / (real ((1000000000 + 1000000000) div 2) / 1000000000) = 2000"
proof -
  have "trial (smooth_env 0 (\<lambda>n. 1000000000)) [''x:'', ''temp''] (zero_block 100)
      \<lparr>clock = 0, files = Map.empty\<rparr> \<lparr>slowTests = 0, threadsCount = 2, lastSpeed = Finite 0\<rparr>
     = Inr \<lparr>slowTests = 0, threadsCount = 3, lastSpeed = Finite 0\<rparr>"
    by (simp add: trial_smooth speed_eval)
  then show ?thesis
    by (simp add: smooth_env_def thread_body_smooth length_zero_block)
qed

subsection \<open>A failing trial\<close>

text \<open>
  C4. When the loop is at a trial with \<open>N\<close> threads and some thread of that trial throws,
  a file that cannot be opened for one, the sweep ends there and \<^verbatim>\<open>TestDriveWrite\<close> returns
  \<open>N\<close> itself, not \<open>N - 1\<close>. The results of all \<open>N\<close> threads have been collected by then.
\<close>

theorem sweep_failing_trial:
  assumes "slowTests st < g_maxSlowTests" and "i < threadsCount st"
    and "thread_body (thread_crt env (threadsCount st) i) dirPath i portion w = Inl e"
  shows "sweep env dirPath portion w st = Some (Inr (threadsCount st)) \<and>
         length (run_threads (thread_crt env (threadsCount st)) dirPath portion w (threadsCount st))
           = threadsCount st"
  using sweep_leave [OF assms(1) trial_bad [OF assms(2,3)]] by (simp add: length_run_threads)

theorem sweep_failing_trial_witness:
  "thread_body (thread_crt (denying_env (\<lambda>n. n * 1000000000) 4 2) 4 2) [''x:'', ''temp''] 2
     (zero_block 1048576) \<lparr>clock = 0, files = Map.empty\<rparr>
   = Inl (CreateFailed [''x:'', ''temp'', ''thread3''] 13) \<and>
   sweep (denying_env (\<lambda>n. n * 1000000000) 4 2) [''x:'', ''temp''] (zero_block 1048576)
     \<lparr>clock = 0, files = Map.empty\<rparr> \<lparr>slowTests = 0, threadsCount = 2, lastSpeed = Finite 10\<rparr>
   = Some (Inr 4)"
proof -
  let ?env = "denying_env (\<lambda>n. n * 1000000000) 4 2"
  let ?d = "[''x:'', ''temp'']"
  let ?w = "\<lparr>clock = 0, files = Map.empty\<rparr>"
  let ?p = "zero_block 1048576"
  have fail: "thread_body (thread_crt ?env 4 2) ?d 2 ?p ?w
      = Inl (CreateFailed [''x:'', ''temp'', ''thread3''] 13)"
    by (simp add: denying_env_def thread_body_denied GetFileNameForThread_def to_string.simps
        digit_char_def)
  have t2: "trial ?env ?d ?p ?w \<lparr>slowTests = 0, threadsCount = 2, lastSpeed = Finite 10\<rparr>
      = Inr \<lparr>slowTests = 0, threadsCount = 3, lastSpeed = Finite 10\<rparr>"
  proof (subst trial_cong [where env' = "smooth_env 0 (\<lambda>n. n * 1000000000)"])
  qed (simp add: denying_env_def smooth_env_def, simp add: trial_smooth speed_eval)
  have t3: "trial ?env ?d ?p ?w \<lparr>slowTests = 0, threadsCount = 3, lastSpeed = Finite 10\<rparr>
      = Inr \<lparr>slowTests = 0, threadsCount = 4, lastSpeed = Finite 10\<rparr>"
  proof (subst trial_cong [where env' = "smooth_env 0 (\<lambda>n. n * 1000000000)"])
  qed (simp add: denying_env_def smooth_env_def, simp add: trial_smooth speed_eval)
  have "sweep ?env ?d ?p ?w \<lparr>slowTests = 0, threadsCount = 2, lastSpeed = Finite 10\<rparr>
      = sweep ?env ?d ?p ?w \<lparr>slowTests = 0, threadsCount = 3, lastSpeed = Finite 10\<rparr>"
    by (rule sweep_step [OF _ t2]) (simp add: g_maxSlowTests_def)
  also have "\<dots> = sweep ?env ?d ?p ?w \<lparr>slowTests = 0, threadsCount = 4, lastSpeed = Finite 10\<rparr>"
    by (rule sweep_step [OF _ t3]) (simp add: g_maxSlowTests_def)
  also have "\<dots> = Some (Inr 4)"
    using sweep_failing_trial
      [of "\<lparr>slowTests = 0, threadsCount = 4, lastSpeed = Finite 10\<rparr>" 2 ?env ?d ?p ?w]
      fail by (simp add: g_maxSlowTests_def)
  finally show ?thesis using fail by simp
qed

subsection \<open>The stopping rule\<close>

text \<open>
  C1, as the code has it. With a throughput of 100 MB/s from the first write and of 90
  and 80 MB/s from the trials with 2 and 3 threads, the loop stops after the trial with 3
  threads, the counter at \<^verbatim>\<open>g_maxSlowTests\<close>, and \<^verbatim>\<open>TestDriveWrite\<close> returns 3, the count of
  the last trial, not 2.
\<close>

theorem sweep_three_decreasing:
  assumes "slowTests st = 0" "threadsCount st = 2" "lastSpeed st = Finite 100"
    and "trial env dirPath portion w st = Inr st1" "lastSpeed st1 = Finite 90"
    and "trial env dirPath portion w st1 = Inr st2" "lastSpeed st2 = Finite 80"
  shows "threadsCount st1 = 3 \<and> slowTests st2 = g_maxSlowTests \<and>
         sweep env dirPath portion w st = Some (Inr 3)"
proof -
  have st1: "threadsCount st1 = 3" "slowTests st1 = 1"
    using trial_Inr [OF assms(4)] assms by simp_all
  have st2: "threadsCount st2 = 4" "slowTests st2 = 2"
    using trial_Inr [OF assms(6)] assms st1 by simp_all
  have "sweep env dirPath portion w st = sweep env dirPath portion w st1"
    using assms by (intro sweep_step) (simp_all add: g_maxSlowTests_def)
  also have "\<dots> = sweep env dirPath portion w st2"
    using assms st1 by (intro sweep_step) (simp_all add: g_maxSlowTests_def)
  also have "\<dots> = Some (Inr 3)"
    using st2 by (simp add: sweep_stop g_maxSlowTests_def)
  finally show ?thesis using st1 st2 by (simp add: g_maxSlowTests_def)
qed

text \<open>
  The scenario: a block of 9 MiB, two threads that take 2 s each and three threads that
  take 3.375 s each.
\<close>

lemma scenario_C:
  "trial (smooth_env 0 (\<lambda>n. if n = 2 then 2000000000 else 3375000000)) dirPath (zero_block 9437184) w
     \<lparr>slowTests = 0, threadsCount = 2, lastSpeed = Finite 100\<rparr>
   = Inr \<lparr>slowTests = 1, threadsCount = 3, lastSpeed = Finite 90\<rparr>"
  "trial (smooth_env 0 (\<lambda>n. if n = 2 then 2000000000 else 3375000000)) dirPath (zero_block 9437184) w
     \<lparr>slowTests = 1, threadsCount = 3, lastSpeed = Finite 90\<rparr>
   = Inr \<lparr>slowTests = 2, threadsCount = 4, lastSpeed = Finite 80\<rparr>"
  by (simp_all add: trial_smooth speed_eval)

theorem sweep_three_decreasing_witness:
  "sweep (smooth_env 0 (\<lambda>n. if n = 2 then 2000000000 else 3375000000)) [''x:'', ''temp'']
     (zero_block 9437184) \<lparr>clock = 0, files = Map.empty\<rparr>
     \<lparr>slowTests = 0, threadsCount = 2, lastSpeed = Finite 100\<rparr>
   = Some (Inr 3)"
  using sweep_three_decreasing [OF _ _ _ scenario_C(1) _ scenario_C(2),
      of "[''x:'', ''temp'']" "\<lparr>clock = 0, files = Map.empty\<rparr>"]
  by (simp add: g_maxSlowTests_def)

text \<open>C1 as it is stated fails: in the scenario the sweep does not return 2.\<close>

theorem sweep_three_decreasing_counterexample:
  "trial (smooth_env 0 (\<lambda>n. if n = 2 then 2000000000 else 3375000000)) [''x:'', ''temp'']
     (zero_block 9437184) \<lparr>clock = 0, files = Map.empty\<rparr>
     \<lparr>slowTests = 0, threadsCount = 2, lastSpeed = Finite 100\<rparr>
   = Inr \<lparr>slowTests = 1, threadsCount = 3, lastSpeed = Finite 90\<rparr> \<and>
   trial (smooth_env 0 (\<lambda>n. if n = 2 then 2000000000 else 3375000000)) [''x:'', ''temp'']
     (zero_block 9437184) \<lparr>clock = 0, files = Map.empty\<rparr>
     \<lparr>slowTests = 1, threadsCount = 3, lastSpeed = Finite 90\<rparr>
   = Inr \<lparr>slowTests = 2, threadsCount = 4, lastSpeed = Finite 80\<rparr> \<and>
   sweep (smooth_env 0 (\<lambda>n. if n = 2 then 2000000000 else 3375000000)) [''x:'', ''temp'']
     (zero_block 9437184) \<lparr>clock = 0, files = Map.empty\<rparr>
     \<lparr>slowTests = 0, threadsCount = 2, lastSpeed = Finite 100\<rparr>
   \<noteq> Some (Inr 2)"
proof -
  let ?env = "smooth_env 0 (\<lambda>n. if n = 2 then 2000000000 else 3375000000)"
  let ?d = "[''x:'', ''temp'']"
  let ?w = "\<lparr>clock = 0, files = Map.empty\<rparr>"
  let ?s0 = "\<lparr>slowTests = 0, threadsCount = 2, lastSpeed = Finite 100\<rparr>"
  let ?s1 = "\<lparr>slowTests = 1, threadsCount = 3, lastSpeed = Finite 90\<rparr>"
  let ?s2 = "\<lparr>slowTests = 2, threadsCount = 4, lastSpeed = Finite 80\<rparr>"
  have "sweep ?env ?d (zero_block 9437184) ?w ?s0 = sweep ?env ?d (zero_block 9437184) ?w ?s1"
    by (rule sweep_step [OF _ scenario_C(1)]) (simp add: g_maxSlowTests_def)
  also have "\<dots> = sweep ?env ?d (zero_block 9437184) ?w ?s2"
    by (rule sweep_step [OF _ scenario_C(2)]) (simp add: g_maxSlowTests_def)
  also have "\<dots> = Some (Inr 3)"
    by (simp add: sweep_stop g_maxSlowTests_def)
  finally show ?thesis using scenario_C by simp
qed

text \<open>
  C8. Take a sweep that starts with the counter at 0 and in which no trial leaves the
  function. If the trials \<open>k\<close> and \<open>k + 1\<close> are the first two in a row that regress, the
  loop ends after trial \<open>k + 1\<close>: the counter has reached \<^verbatim>\<open>g_maxSlowTests\<close>, and what is
  returned is \<open>threadsCount - 1\<close>, the thread count of that trial. If no two trials in a
  row ever regress, the sweep does not end.
\<close>

theorem sweep_termination:
  "(slowTests (sts 0) = 0 \<and>
    (\<forall>i<k + 2. trial env dirPath portion w (sts i) = Inr (sts (Suc i))) \<and>
    regress sts k \<and> regress sts (Suc k) \<and>
    (\<forall>j<k. \<not> (regress sts j \<and> regress sts (Suc j)))
    \<longrightarrow> slowTests (sts (k + 2)) = g_maxSlowTests \<and>
        sweep env dirPath portion w (sts 0) = Some (Inr (threadsCount (sts (k + 2)) - 1)) \<and>
        threadsCount (sts (k + 2)) - 1 = threadsCount (sts 0) + k + 1) \<and>
   (slowTests (sts 0) = 0 \<and>
    (\<forall>i. trial env dirPath portion w (sts i) = Inr (sts (Suc i))) \<and>
    (\<forall>j. \<not> (regress sts j \<and> regress sts (Suc j)))
    \<longrightarrow> sweep env dirPath portion w (sts 0) = None)"
proof (intro conjI impI)
  assume a: "slowTests (sts 0) = 0 \<and>
    (\<forall>i<k + 2. trial env dirPath portion w (sts i) = Inr (sts (Suc i))) \<and>
    regress sts k \<and> regress sts (Suc k) \<and>
    (\<forall>j<k. \<not> (regress sts j \<and> regress sts (Suc j)))"
  then have run: "\<And>i. i < k + 2 \<Longrightarrow> trial env dirPath portion w (sts i) = Inr (sts (Suc i))"
    and start: "slowTests (sts 0) = 0" and rk: "regress sts k" "regress sts (Suc k)"
    and least: "\<And>j. j < k \<Longrightarrow> \<not> (regress sts j \<and> regress sts (Suc j))"
    by auto
  have run1: "\<And>i. i < Suc k \<Longrightarrow> trial env dirPath portion w (sts i) = Inr (sts (Suc i))"
    using run by simp
  have inv: "slowTests (sts i) = (if 0 < i \<and> regress sts (i - 1) then 1 else 0)" if "i \<le> Suc k" for i
  proof (rule slow_invariant [where n = "Suc k" and env = env and dirPath = dirPath
        and portion = portion and w = w])
    fix j assume "Suc j < Suc k"
    then show "\<not> (regress sts j \<and> regress sts (Suc j))" using least by simp
  qed (use run1 start that in auto)
  have s1: "slowTests (sts (Suc k)) = 1" using inv [of "Suc k"] rk by simp
  have s2: "slowTests (sts (k + 2)) = 2"
    using trial_Inr [OF run [of "Suc k"]] rk(2) s1 by (simp add: regress_def)
  show "slowTests (sts (k + 2)) = g_maxSlowTests" using s2 by (simp add: g_maxSlowTests_def)
  have "sweep env dirPath portion w (sts 0) = sweep env dirPath portion w (sts (k + 2))"
  proof (rule sweep_prefix)
    fix i assume i: "i < k + 2"
    have "slowTests (sts i) < g_maxSlowTests"
      using inv [of i] i by (simp add: g_maxSlowTests_def)
    then show "slowTests (sts i) < g_maxSlowTests \<and>
        trial env dirPath portion w (sts i) = Inr (sts (Suc i))"
      using run [OF i] by simp
  qed
  also have "\<dots> = Some (Inr (threadsCount (sts (k + 2)) - 1))"
    using s2 by (intro sweep_stop) (simp add: g_maxSlowTests_def)
  finally show "sweep env dirPath portion w (sts 0) = Some (Inr (threadsCount (sts (k + 2)) - 1))" .
  show "threadsCount (sts (k + 2)) - 1 = threadsCount (sts 0) + k + 1"
    using threads_invariant [of "k + 2" env dirPath portion w sts "k + 2"] run by simp
next
  assume a: "slowTests (sts 0) = 0 \<and>
    (\<forall>i. trial env dirPath portion w (sts i) = Inr (sts (Suc i))) \<and>
    (\<forall>j. \<not> (regress sts j \<and> regress sts (Suc j)))"
  show "sweep env dirPath portion w (sts 0) = None"
  proof (rule sweep_forever)
    fix i
    have "slowTests (sts i) = (if 0 < i \<and> regress sts (i - 1) then 1 else 0)"
      using a by (intro slow_invariant [where n = i and env = env and dirPath = dirPath
            and portion = portion and w = w]) auto
    then have "slowTests (sts i) < g_maxSlowTests" by (simp add: g_maxSlowTests_def)
    then show "slowTests (sts i) < g_maxSlowTests \<and>
        trial env dirPath portion w (sts i) = Inr (sts (Suc i))"
      using a by simp
  qed
qed

text \<open>
  Two sweeps: one with throughputs 10, 20, 15, 10 MB/s, which returns 4, and one on an
  empty block, whose throughput is always 0, which does not end.
\<close>

theorem sweep_termination_witness:
  "sweep (smooth_env 0 (\<lambda>n. if n = 2 then 1000000000 else if n = 3 then 2000000000 else 4000000000))
     [''x:'', ''temp''] (zero_block 1048576) \<lparr>clock = 0, files = Map.empty\<rparr>
     \<lparr>slowTests = 0, threadsCount = 2, lastSpeed = Finite 10\<rparr> = Some (Inr 4) \<and>
   sweep (smooth_env 0 (\<lambda>n. 1)) [''x:'', ''temp''] [] \<lparr>clock = 0, files = Map.empty\<rparr>
     \<lparr>slowTests = 0, threadsCount = 2, lastSpeed = Finite 0\<rparr> = None"
proof -
  let ?d = "[''x:'', ''temp'']"
  let ?w = "\<lparr>clock = 0, files = Map.empty\<rparr>"
  let ?env = "smooth_env 0 (\<lambda>n. if n = 2 then 1000000000 else if n = 3 then 2000000000 else 4000000000)"
  let ?p = "zero_block 1048576"
  define sts :: "nat \<Rightarrow> sweep_state" where
    "sts = (\<lambda>i. if i = 0 then \<lparr>slowTests = 0, threadsCount = 2, lastSpeed = Finite 10\<rparr>
                else if i = 1 then \<lparr>slowTests = 0, threadsCount = 3, lastSpeed = Finite 20\<rparr>
                else if i = 2 then \<lparr>slowTests = 1, threadsCount = 4, lastSpeed = Finite 15\<rparr>
                else \<lparr>slowTests = 2, threadsCount = 5, lastSpeed = Finite 10\<rparr>)"
  have sts: "sts 0 = \<lparr>slowTests = 0, threadsCount = 2, lastSpeed = Finite 10\<rparr>"
    "sts (Suc 0) = \<lparr>slowTests = 0, threadsCount = 3, lastSpeed = Finite 20\<rparr>"
    "sts (Suc (Suc 0)) = \<lparr>slowTests = 1, threadsCount = 4, lastSpeed = Finite 15\<rparr>"
    "sts (Suc (Suc (Suc 0))) = \<lparr>slowTests = 2, threadsCount = 5, lastSpeed = Finite 10\<rparr>"
    by (simp_all add: sts_def)
  have t: "trial ?env ?d ?p ?w (sts 0) = Inr (sts (Suc 0))"
    "trial ?env ?d ?p ?w (sts (Suc 0)) = Inr (sts (Suc (Suc 0)))"
    "trial ?env ?d ?p ?w (sts (Suc (Suc 0))) = Inr (sts (Suc (Suc (Suc 0))))"
    unfolding sts by (simp_all add: trial_smooth speed_eval)
  have run: "\<forall>i<Suc 0 + 2. trial ?env ?d ?p ?w (sts i) = Inr (sts (Suc i))"
  proof (intro allI impI)
    fix i :: nat assume "i < Suc 0 + 2"
    then have "i = 0 \<or> i = Suc 0 \<or> i = Suc (Suc 0)" by auto
    then show "trial ?env ?d ?p ?w (sts i) = Inr (sts (Suc i))"
      using t by auto
  qed
  have reg: "regress sts (Suc 0)" "regress sts (Suc (Suc 0))"
    "\<forall>j<Suc 0. \<not> (regress sts j \<and> regress sts (Suc j))"
    by (simp_all add: regress_def sts)
  have "slowTests (sts 0) = 0" by (simp add: sts)
  with run reg have
    "slowTests (sts (Suc 0 + 2)) = g_maxSlowTests \<and>
     sweep ?env ?d ?p ?w (sts 0) = Some (Inr (threadsCount (sts (Suc 0 + 2)) - 1)) \<and>
     threadsCount (sts (Suc 0 + 2)) - 1 = threadsCount (sts 0) + Suc 0 + 1"
    by (intro sweep_termination [of sts "Suc 0" ?env ?d ?p ?w, THEN conjunct1, THEN mp]) simp
  then have a: "sweep ?env ?d ?p ?w \<lparr>slowTests = 0, threadsCount = 2, lastSpeed = Finite 10\<rparr>
      = Some (Inr 4)"
    by (simp add: sts g_maxSlowTests_def)
  let ?env' = "smooth_env 0 (\<lambda>n. 1)"
  define sts' :: "nat \<Rightarrow> sweep_state" where
    "sts' = (\<lambda>i. \<lparr>slowTests = 0, threadsCount = i + 2, lastSpeed = Finite 0\<rparr>)"
  have run': "\<forall>i. trial ?env' ?d [] ?w (sts' i) = Inr (sts' (Suc i))"
    by (simp add: sts'_def trial_smooth speed_empty)
  have reg': "\<forall>j. \<not> (regress sts' j \<and> regress sts' (Suc j))"
    by (simp add: regress_def sts'_def)
  have "slowTests (sts' 0) = 0" by (simp add: sts'_def)
  with run' reg' have "sweep ?env' ?d [] ?w (sts' 0) = None"
    by (intro sweep_termination [of sts' 0 ?env' ?d "[]" ?w, THEN conjunct2, THEN mp]) simp
  then have b: "sweep ?env' ?d [] ?w \<lparr>slowTests = 0, threadsCount = 2, lastSpeed = Finite 0\<rparr> = None"
    by (simp add: sts'_def numeral_2_eq_2)
  show ?thesis using a b by simp
qed

section \<open>Single-precision rounding\<close>

lemma rne_bounds: "q - 1 / 2 \<le> of_int (rne q)" "of_int (rne q) \<le> q + 1 / 2"
proof -
  obtain f where f: "f = \<lfloor>q\<rfloor>" by simp
  have "of_int f \<le> q" "q < of_int f + 1" unfolding f by linarith+
  then show "q - 1 / 2 \<le> of_int (rne q)" "of_int (rne q) \<le> q + 1 / 2"
    unfolding rne_def Let_def f [symmetric] by auto
qed

lemma rne_le: 
  assumes "q \<le> of_int m" shows "rne q \<le> m"
proof -
  have f: "\<lfloor>q\<rfloor> \<le> m" using assms by (simp add: floor_le_iff)
  show ?thesis
  proof (cases "\<lfloor>q\<rfloor> = m")
    case True
    then have "q = of_int m" using assms by (metis of_int_floor_le order_antisym)
    then show ?thesis by (simp add: rne_def)
  next
    case False
    then have "\<lfloor>q\<rfloor> + 1 \<le> m" using f by simp
    then show ?thesis by (auto simp: rne_def Let_def)
  qed
qed

lemma rne_ge:
  assumes "of_int m \<le> q" shows "m \<le> rne q"
proof -
  have "m \<le> \<lfloor>q\<rfloor>" using assms by (simp add: le_floor_iff)
  then show ?thesis by (auto simp: rne_def Let_def)
qed

lemma rne_gt_half:
  assumes "of_int m + 1 / 2 < q" shows "m + 1 \<le> rne q"
proof -
  have m: "m \<le> \<lfloor>q\<rfloor>" using assms by (simp add: le_floor_iff)
  show ?thesis
  proof (cases "\<lfloor>q\<rfloor> = m")
    case True
    then have "1 / 2 < q - of_int \<lfloor>q\<rfloor>" using assms by simp
    then show ?thesis using True by (simp add: rne_def Let_def)
  next
    case False
    then have "m + 1 \<le> \<lfloor>q\<rfloor>" using m by simp
    then show ?thesis by (auto simp: rne_def Let_def)
  qed
qed

lemma round_sig_base:
  "2 ^ 23 \<le> x \<Longrightarrow> x < 2 ^ 24 \<Longrightarrow> round_sig x = of_int (rne x)"
  by (subst round_sig.simps) simp

lemma round_sig_up:
  "2 ^ 23 \<le> x * 2 ^ k \<Longrightarrow> x * 2 ^ k < 2 ^ 24 \<Longrightarrow> round_sig x = of_int (rne (x * 2 ^ k)) / 2 ^ k"
proof (induction k arbitrary: x)
  case 0
  then show ?case by (simp add: round_sig_base)
next
  case (Suc k)
  have pos: "0 < x"
  proof (rule ccontr)
    assume "\<not> 0 < x"
    then have "x * 2 ^ Suc k \<le> 0" by (simp add: mult_le_0_iff)
    with Suc.prems(1) show False by simp
  qed
  have "x * 2 ^ Suc k < 2 ^ 24" by (rule Suc.prems(2))
  moreover have "x * 2 \<le> x * 2 ^ Suc k" using pos by simp
  ultimately have small: "x < 2 ^ 23" by simp
  have "round_sig x = round_sig (2 * x) / 2"
    using pos small by (subst round_sig.simps) simp
  also have "round_sig (2 * x) = of_int (rne ((2 * x) * 2 ^ k)) / 2 ^ k"
    using Suc.prems by (intro Suc.IH) (simp_all add: mult.assoc mult.left_commute)
  finally show ?case by (simp add: mult.assoc mult.left_commute)
qed

lemma round_sig_down:
  "2 ^ 23 \<le> x / 2 ^ k \<Longrightarrow> x / 2 ^ k < 2 ^ 24 \<Longrightarrow> round_sig x = of_int (rne (x / 2 ^ k)) * 2 ^ k"
proof (induction k arbitrary: x)
  case 0
  then show ?case by (simp add: round_sig_base)
next
  case (Suc k)
  have "(2::real) ^ 24 = 2 ^ 23 * 2 ^ Suc 0" by simp
  also have "\<dots> \<le> 2 ^ 23 * 2 ^ Suc k"
    by (intro mult_left_mono power_increasing) simp_all
  also have "\<dots> \<le> x" using Suc.prems(1) by (simp add: pos_le_divide_eq)
  finally have big: "2 ^ 24 \<le> x" .
  have "round_sig x = 2 * round_sig (x / 2)"
    using big by (subst round_sig.simps) simp
  also have "round_sig (x / 2) = of_int (rne ((x / 2) / 2 ^ k)) * 2 ^ k"
    using Suc.prems by (intro Suc.IH) simp_all
  finally show ?case by simp
qed

lemma round_sig_error:
  "0 < x \<Longrightarrow> x * (1 - 1 / 2 ^ 24) \<le> round_sig x \<and> round_sig x \<le> x * (1 + 1 / 2 ^ 24)"
proof (induction x rule: round_sig.induct)
  case (1 x)
  consider "x < 2 ^ 23" | "2 ^ 24 \<le> x" | "2 ^ 23 \<le> x" "x < 2 ^ 24" by linarith
  then show ?case
  proof cases
    case 1
    have "round_sig x = round_sig (2 * x) / 2"
      using "1.prems" 1 by (subst round_sig.simps) simp
    moreover have "2 * x * (1 - 1 / 2 ^ 24) \<le> round_sig (2 * x) \<and> round_sig (2 * x) \<le> 2 * x * (1 + 1 / 2 ^ 24)"
      using "1.prems" 1 by (intro "1.IH"(1)) simp_all
    ultimately show ?thesis by simp
  next
    case 2
    have "round_sig x = 2 * round_sig (x / 2)"
      using "1.prems" 2 by (subst round_sig.simps) simp
    moreover have "x / 2 * (1 - 1 / 2 ^ 24) \<le> round_sig (x / 2) \<and> round_sig (x / 2) \<le> x / 2 * (1 + 1 / 2 ^ 24)"
      using "1.prems" 2 by (intro "1.IH"(2)) simp_all
    ultimately show ?thesis by simp
  next
    case 3
    have "round_sig x = of_int (rne x)" using 3 by (rule round_sig_base)
    moreover have "1 / 2 \<le> x / 2 ^ 24" using 3(1) by simp
    ultimately show ?thesis using rne_bounds [of x] by (simp add: algebra_simps)
  qed
qed

lemma round_sig_nonneg: "0 \<le> round_sig x"
proof (cases "0 < x")
  case True
  have "0 \<le> x * (1 - 1 / 2 ^ 24)" using True by simp
  then show ?thesis using round_sig_error [OF True] by linarith
next
  case False
  then show ?thesis by (subst round_sig.simps) simp
qed

text \<open>Every non-negative real below \<open>2^127\<close> rounds to a finite number close to it.\<close>

lemma fl_finite:
  assumes "0 \<le> x" "x < 2 ^ 127"
  shows "\<exists>v. fl x = Finite v \<and> 0 \<le> v \<and> v \<le> x * (1 + 1 / 2 ^ 24) + 1 / 2 ^ 150 \<and>
             x * (1 - 1 / 2 ^ 24) - 1 / 2 ^ 150 \<le> v"
proof (cases "x < 1 / 2 ^ 126")
  case True
  define v where "v = real_of_int (rne (x * 2 ^ 149)) / 2 ^ 149"
  have fl: "fl x = Finite v" using True by (simp add: fl_def v_def)
  have "0 \<le> rne (x * 2 ^ 149)" using assms(1) by (intro rne_ge) simp
  then have v0: "0 \<le> v" by (simp add: v_def)
  have up: "v \<le> x + 1 / 2 ^ 150" and lo: "x - 1 / 2 ^ 150 \<le> v"
    using rne_bounds [of "x * 2 ^ 149"] by (simp_all add: v_def field_simps)
  have "x \<le> x * (1 + 1 / 2 ^ 24)" "x * (1 - 1 / 2 ^ 24) \<le> x"
    using assms(1) by (simp_all add: algebra_simps)
  then have "v \<le> x * (1 + 1 / 2 ^ 24) + 1 / 2 ^ 150" "x * (1 - 1 / 2 ^ 24) - 1 / 2 ^ 150 \<le> v"
    using up lo by linarith+
  then show ?thesis using fl v0 by blast
next
  case False
  then have "1 / 2 ^ 126 \<le> x" by simp
  then have pos: "0 < x" by (rule less_le_trans [rotated]) simp
  have err: "x * (1 - 1 / 2 ^ 24) \<le> round_sig x" "round_sig x \<le> x * (1 + 1 / 2 ^ 24)"
    using round_sig_error [OF pos] by simp_all
  have "x * (1 + 1 / 2 ^ 24) < 2 ^ 127 * 2"
    using assms(2) pos by (intro mult_strict_mono) simp_all
  then have "round_sig x < 2 ^ 128" using err(2) by simp
  then show ?thesis using False err round_sig_nonneg [of x] by (simp add: fl_def)
qed

lemma fl_zero: "fl 0 = Finite 0"
  by (simp add: fl_def rne_def)

text \<open>What rounds to more than 2 is more than 2 by an ulp at least.\<close>

lemma fl_gt_2:
  assumes "fl y = Finite x" "2 < x"
  shows "2 + 1 / 2 ^ 22 \<le> x"
proof -
  consider "y < 1 / 2 ^ 126" | "1 / 2 ^ 126 \<le> y" "y < 1" | "1 \<le> y" "y < 2" | "2 \<le> y" "y < 4" | "4 \<le> y"
    by linarith
  then show ?thesis
  proof cases
    case 1
    then have "x = of_int (rne (y * 2 ^ 149)) / 2 ^ 149" using assms(1) by (simp add: fl_def)
    moreover have "of_int (rne (y * 2 ^ 149)) / 2 ^ 149 \<le> y + 1 / 2 ^ 150"
      using rne_bounds [of "y * 2 ^ 149"] by (simp add: field_simps)
    ultimately have "x \<le> y + 1 / 2 ^ 150" by simp
    then have "x < 2" using 1 by simp
    then show ?thesis using assms(2) by simp
  next
    case 2
    then have x: "x = round_sig y" using assms(1) by (simp add: fl_def split: if_splits)
    have "0 < y" using 2(1) by (rule less_le_trans [rotated]) simp
    from round_sig_error [OF this] have "x \<le> y * (1 + 1 / 2 ^ 24)" by (simp add: x)
    also have "\<dots> < 1 * 2" using 2(2) \<open>0 < y\<close> by (intro mult_strict_mono) simp_all
    finally show ?thesis using assms(2) by simp
  next
    case 3
    then have x: "x = round_sig y" using assms(1) by (simp add: fl_def split: if_splits)
    have "round_sig y = of_int (rne (y * 2 ^ 23)) / 2 ^ 23"
      using 3 by (intro round_sig_up) simp_all
    moreover have "rne (y * 2 ^ 23) \<le> 2 ^ 24" using 3(2) by (intro rne_le) simp
    then have "real_of_int (rne (y * 2 ^ 23)) \<le> real_of_int (2 ^ 24)" by (simp only: of_int_le_iff)
    then have "real_of_int (rne (y * 2 ^ 23)) \<le> 2 ^ 24" by simp
    ultimately have "x \<le> 2" by (simp add: x field_simps)
    then show ?thesis using assms(2) by simp
  next
    case 4
    then have x: "x = round_sig y" using assms(1) by (simp add: fl_def split: if_splits)
    have r: "round_sig y = of_int (rne (y * 2 ^ 22)) / 2 ^ 22"
      using 4 by (intro round_sig_up) simp_all
    have "real_of_int (2 ^ 23) < real_of_int (rne (y * 2 ^ 22))"
      using assms(2) by (simp add: x r field_simps)
    then have "(2 ^ 23 :: int) < rne (y * 2 ^ 22)" by (simp only: of_int_less_iff)
    then have "(2 ^ 23 :: int) + 1 \<le> rne (y * 2 ^ 22)" by simp
    then have "real_of_int (2 ^ 23 + 1) \<le> real_of_int (rne (y * 2 ^ 22))"
      by (simp only: of_int_le_iff)
    then show ?thesis by (simp add: x r field_simps)
  next
    case 5
    then have x: "x = round_sig y" using assms(1) by (simp add: fl_def split: if_splits)
    have "0 < y" using 5 by simp
    from round_sig_error [OF this] have "y * (1 - 1 / 2 ^ 24) \<le> x" by (simp add: x)
    moreover have "4 * (1 - 1 / 2 ^ 24) \<le> y * (1 - 1 / 2 ^ 24)"
      using 5 by (intro mult_right_mono) simp_all
    ultimately show ?thesis by simp
  qed
qed

text \<open>What is at most 2 rounds to at most 2.\<close>

lemma fl_le_2:
  assumes "0 \<le> y" "y \<le> 2"
  shows "\<exists>x. fl y = Finite x \<and> x \<le> 2"
proof -
  obtain x where x: "fl y = Finite x" using fl_finite [of y] assms by auto
  have "\<not> 2 < x"
  proof
    assume gt: "2 < x"
    consider "y < 1 / 2 ^ 126" | "1 / 2 ^ 126 \<le> y" "y < 1" | "1 \<le> y" "y < 2" | "y = 2"
      using assms(2) by linarith
    then show False
    proof cases
      case 1
      then have "x = of_int (rne (y * 2 ^ 149)) / 2 ^ 149" using x by (simp add: fl_def)
      moreover have "of_int (rne (y * 2 ^ 149)) / 2 ^ 149 \<le> y + 1 / 2 ^ 150"
        using rne_bounds [of "y * 2 ^ 149"] by (simp add: field_simps)
      ultimately have "x \<le> y + 1 / 2 ^ 150" by simp
      then show False using 1 gt by simp
    next
      case 2
      then have xr: "x = round_sig y" using x by (simp add: fl_def split: if_splits)
      have "0 < y" using 2(1) by (rule less_le_trans [rotated]) simp
      from round_sig_error [OF this] have "x \<le> y * (1 + 1 / 2 ^ 24)" by (simp add: xr)
      also have "\<dots> < 1 * 2" using 2(2) \<open>0 < y\<close> by (intro mult_strict_mono) simp_all
      finally show False using gt by simp
    next
      case 3
      then have xr: "x = round_sig y" using x by (simp add: fl_def split: if_splits)
      have "round_sig y = of_int (rne (y * 2 ^ 23)) / 2 ^ 23"
        using 3 by (intro round_sig_up) simp_all
      moreover have "rne (y * 2 ^ 23) \<le> 2 ^ 24" using 3(2) by (intro rne_le) simp
      then have "real_of_int (rne (y * 2 ^ 23)) \<le> real_of_int (2 ^ 24)" by (simp only: of_int_le_iff)
    then have "real_of_int (rne (y * 2 ^ 23)) \<le> 2 ^ 24" by simp
      ultimately have "x \<le> 2" by (simp add: xr field_simps)
      then show False using gt by simp
    next
      case 4
      then have "x = 2" using x by (simp add: fl_def round_sig.simps rne_def)
      then show False using gt by simp
    qed
  qed
  then show ?thesis using x by simp
qed

text \<open>The quotient of 2 by a number that is more than 2 by an ulp rounds below 1 by an ulp.\<close>

lemma fl_ratio:
  assumes "2 + 1 / 2 ^ 22 \<le> x"
  shows "\<exists>r. fl (2 / x) = Finite r \<and> 0 \<le> r \<and> r \<le> 1 - 1 / 2 ^ 23"
proof -
  let ?y = "2 / x"
  have "2 \<le> x" using assms by (rule order_trans [rotated]) simp
  then have xpos: "0 < x" by simp
  have ypos: "0 < ?y" using xpos by simp
  have "?y * x = 2" using xpos by simp
  have ylt: "?y < 1" using assms xpos by (simp add: field_simps)
  obtain r where r: "fl ?y = Finite r" "0 \<le> r"
    "r \<le> ?y * (1 + 1 / 2 ^ 24) + 1 / 2 ^ 150"
    using fl_finite [of ?y] ypos ylt by auto
  have "r \<le> 1 - 1 / 2 ^ 23"
  proof (cases "?y < 1 / 2")
    case True
    then show ?thesis using r(3) by simp
  next
    case False
    then have half: "1 / 2 \<le> ?y" by simp
    have norm: "1 / 2 ^ 126 \<le> ?y" using half by simp
    have "r = round_sig ?y" using r(1) norm by (simp add: fl_def split: if_splits)
    also have "\<dots> = of_int (rne (?y * 2 ^ 24)) / 2 ^ 24"
      using half ylt by (intro round_sig_up) simp_all
    finally have rr: "r = of_int (rne (?y * 2 ^ 24)) / 2 ^ 24" .
    have bound: "?y * (1 + 1 / 2 ^ 23) \<le> 1"
    proof -
      have "2 * (1 + 1 / 2 ^ 23) \<le> x" using assms by simp
      then show ?thesis using xpos by (simp add: field_simps)
    qed
    have "rne (?y * 2 ^ 24) \<le> 2 ^ 24 - 2"
    proof (cases "?y \<le> 3 / 4")
      case True
      then have "?y * 2 ^ 24 \<le> of_int (2 ^ 24 - 2)" by simp
      then show ?thesis by (rule rne_le)
    next
      case False
      then have "?y * 2 ^ 24 < 2 ^ 24 - 3 / 2" using bound by (simp add: algebra_simps)
      then have "of_int (rne (?y * 2 ^ 24)) < (2 ^ 24 - 1 :: real)"
        using rne_bounds(2) [of "?y * 2 ^ 24"] by linarith
      then have "real_of_int (rne (?y * 2 ^ 24)) < real_of_int (2 ^ 24 - 1)" by simp
      then have "rne (?y * 2 ^ 24) < 2 ^ 24 - 1" by (simp only: of_int_less_iff)
      then show ?thesis by simp
    qed
    then have "real_of_int (rne (?y * 2 ^ 24)) \<le> real_of_int (2 ^ 24 - 2)"
      by (simp only: of_int_le_iff)
    then have "real_of_int (rne (?y * 2 ^ 24)) \<le> 2 ^ 24 - 2" by simp
    then show ?thesis by (simp add: rr field_simps)
  qed
  then show ?thesis using r by auto
qed

section \<open>TestDriveWriteFirst\<close>

lemma TestDriveWriteFirst_Inl:
  "fst (WriteTestFile c (dirPath @ [''single_thread'']) portion w) = Inl e \<Longrightarrow>
   fst (TestDriveWriteFirst c dirPath portion w) = Inl e"
  by (cases "WriteTestFile c (dirPath @ [''single_thread'']) portion w")
    (simp add: TestDriveWriteFirst_def)

lemma TestDriveWriteFirst_Inr:
  "fst (WriteTestFile c (dirPath @ [''single_thread'']) portion w) = Inr t \<Longrightarrow>
   fst (TestDriveWriteFirst c dirPath portion w) =
     (if fless g_maxTestDuration (seconds t)
      then (case size_t_of_float (fmul (fdiv g_maxTestDuration (seconds t)) (float_of_nat (length portion))) of
              None \<Rightarrow> Inl CastOutOfRange
            | Some n \<Rightarrow> Inr (t, resize portion n))
      else Inr (t, portion))"
  by (cases "WriteTestFile c (dirPath @ [''single_thread'']) portion w")
    (simp add: TestDriveWriteFirst_def Let_def split: option.splits)

lemma fl_le_2e9:
  assumes "0 \<le> y" "y \<le> 2000000000"
  shows "\<exists>a. fl y = Finite a \<and> 0 \<le> a \<and> a \<le> 2000000000"
proof (cases "y < 2 ^ 30")
  case True
  obtain a where a: "fl y = Finite a" "0 \<le> a" "a \<le> y * (1 + 1 / 2 ^ 24) + 1 / 2 ^ 150"
    using fl_finite [of y] assms by auto
  have "y * (1 + 1 / 2 ^ 24) \<le> 2 ^ 30 * (1 + 1 / 2 ^ 24)"
    using True by (intro mult_right_mono) simp_all
  then have "a \<le> 2000000000" using a(3) by simp
  then show ?thesis using a by blast
next
  case False
  then have big: "2 ^ 30 \<le> y" by simp
  have norm: "\<not> y < 1 / 2 ^ 126"
  proof
    assume "y < 1 / 2 ^ 126"
    also have "\<dots> < 2 ^ 30" by simp
    finally show False using big by simp
  qed
  have r: "round_sig y = of_int (rne (y / 2 ^ 7)) * 2 ^ 7"
    using big assms(2) by (intro round_sig_down) simp_all
  have "rne (y / 2 ^ 7) \<le> 15625000" using assms(2) by (intro rne_le) simp
  then have "real_of_int (rne (y / 2 ^ 7)) \<le> real_of_int 15625000" by (simp only: of_int_le_iff)
  then have le: "round_sig y \<le> 2000000000" by (simp add: r)
  then have "round_sig y < 2 ^ 128" by simp
  then have "fl y = Finite (round_sig y)" using norm by (simp add: fl_def)
  then show ?thesis using le round_sig_nonneg [of y] by blast
qed

lemma fl_billion: "float_of_nat 1000000000 = Finite 1000000000"
  by (simp add: float_of_nat_def fl_def round_sig.simps rne_def)

lemma fl_not_NaN: "fl y \<noteq> NaN"
  by (simp add: fl_def)

text \<open>Up to 2 s the seconds are at most 2.\<close>

lemma seconds_le:
  assumes "t \<le> 2000000000"
  shows "\<not> fless g_maxTestDuration (seconds t)"
proof -
  have "real (nat t) \<le> 2000000000" using assms by simp
  then obtain a where a: "fl (real (nat t)) = Finite a" "0 \<le> a" "a \<le> 2000000000"
    using fl_le_2e9 [of "real (nat t)"] by auto
  have "a / 1000000000 \<le> 2" "0 \<le> a / 1000000000" using a by simp_all
  then obtain x where x: "fl (a / 1000000000) = Finite x" "x \<le> 2"
    using fl_le_2 [of "a / 1000000000"] by auto
  have "seconds t = Finite x"
    by (simp add: seconds_def fl_billion float_of_nat_def [of "nat t"] a x)
  then show ?thesis using x(2) by (simp add: g_maxTestDuration_def)
qed

text \<open>Seconds above 2 are above it by an ulp, or infinite.\<close>

lemma seconds_gt:
  assumes "fless g_maxTestDuration (seconds t)"
  shows "seconds t = Infinity \<or> (\<exists>x. seconds t = Finite x \<and> 2 + 1 / 2 ^ 22 \<le> x)"
proof (cases "fl (real (nat t))")
  case (Finite a)
  then have s: "seconds t = fl (a / 1000000000)"
    by (simp add: seconds_def fl_billion float_of_nat_def [of "nat t"])
  show ?thesis
  proof (cases "fl (a / 1000000000)")
    case (Finite x)
    then have "2 < x" using assms s by (simp add: g_maxTestDuration_def)
    from fl_gt_2 [OF Finite this] show ?thesis using s Finite by simp
  next
    case Infinity
    then show ?thesis using s by simp
  next
    case NaN
    then show ?thesis using fl_not_NaN by blast
  qed
next
  case Infinity
  then show ?thesis by (simp add: seconds_def fl_billion float_of_nat_def [of "nat t"])
next
  case NaN
  then show ?thesis using fl_not_NaN by blast
qed

text \<open>
  The size the block is cut to: not negative, not above the size of the block, and below
  it when the block is not empty.
\<close>

lemma preferred_size_bound:
  assumes "n < 2 ^ 64" "fless g_maxTestDuration (seconds t)"
  shows "\<exists>p. fmul (fdiv g_maxTestDuration (seconds t)) (float_of_nat n) = Finite p \<and>
             0 \<le> p \<and> p \<le> real n \<and> (0 < n \<longrightarrow> p < real n)"
proof -
  have "real n < 2 ^ 64" using assms(1) by (metis of_nat_less_iff of_nat_numeral of_nat_power)
  then have nb: "real n < 2 ^ 127" by simp
  obtain f where f: "fl (real n) = Finite f" "0 \<le> f" "f \<le> real n * (1 + 1 / 2 ^ 24) + 1 / 2 ^ 150"
    using fl_finite [of "real n"] nb by auto
  have f0: "f = 0" if "n = 0" using that f(1) by (simp add: fl_zero)
  from seconds_gt [OF assms(2)] show ?thesis
  proof
    assume "seconds t = Infinity"
    then have "fmul (fdiv g_maxTestDuration (seconds t)) (float_of_nat n) = Finite 0"
      by (simp add: g_maxTestDuration_def float_of_nat_def f(1) fl_zero)
    then show ?thesis by simp
  next
    assume "\<exists>x. seconds t = Finite x \<and> 2 + 1 / 2 ^ 22 \<le> x"
    then obtain x where x: "seconds t = Finite x" "2 + 1 / 2 ^ 22 \<le> x" by blast
    have "2 \<le> x" using x(2) by (rule order_trans [rotated]) simp
    then have x0: "x \<noteq> 0" by simp
    obtain r where r: "fl (2 / x) = Finite r" "0 \<le> r" "r \<le> 1 - 1 / 2 ^ 23"
      using fl_ratio [OF x(2)] by blast
    have rf0: "0 \<le> r * f" using r(2) f(2) by simp
    have rf1: "r * f \<le> (1 - 1 / 2 ^ 23) * f" using r(3) f(2) by (rule mult_right_mono)
    have "r * f < 2 ^ 127"
    proof -
      have "r * f \<le> f" using rf1 f(2) by (simp add: algebra_simps)
      also have "\<dots> \<le> real n * (1 + 1 / 2 ^ 24) + 1 / 2 ^ 150" by (rule f(3))
      also have "\<dots> < 2 ^ 64 * 2 + 1"
        using \<open>real n < 2 ^ 64\<close> by (intro add_strict_mono mult_strict_mono) simp_all
      also have "\<dots> < 2 ^ 127" by simp
      finally show ?thesis .
    qed
    then obtain p where p: "fl (r * f) = Finite p" "0 \<le> p" "p \<le> r * f * (1 + 1 / 2 ^ 24) + 1 / 2 ^ 150"
      using fl_finite [of "r * f"] rf0 by auto
    have eq: "fmul (fdiv g_maxTestDuration (seconds t)) (float_of_nat n) = Finite p"
      using x0 by (simp add: g_maxTestDuration_def x(1) r(1) float_of_nat_def f(1) p(1))
    have lt: "p < real n" if "0 < n"
    proof -
      have "1 \<le> real n" using that by simp
      then show ?thesis using p(3) rf1 f(3) by (simp add: algebra_simps)
    qed
    have "p = 0" if "n = 0"
      using p(1) f0 [OF that] by (simp add: fl_zero)
    then have "p \<le> real n" using lt by (cases "n = 0") auto
    then show ?thesis using eq p(2) lt by blast
  qed
qed

lemma length_resize: "length (resize portion n) = n"
  by (simp add: resize_def)

lemma resize_le: "n \<le> length portion \<Longrightarrow> resize portion n = take n portion"
  by (simp add: resize_def)

text \<open>
  C2, as the code has it. Take a call in which the write succeeds, on a block whose size
  \<^verbatim>\<open>size_t\<close> can hold, and let \<open>s\<close> be the elapsed seconds in single precision: the elapsed
  nanoseconds converted and divided by \<open>10^9\<close>. The call returns the elapsed time and never
  enlarges the block. If \<open>s\<close> is above 2, the block is cut to the integer part of the
  single-precision product \<open>(2 / s) * size\<close>, which leaves a non-empty block smaller; the
  elapsed time is then above 2 s. Otherwise, and so whenever the elapsed time is at most
  2 s, 0 included, the block is left as it is.
\<close>

theorem TestDriveWriteFirst_resize:
  assumes "fst (WriteTestFile c (dirPath @ [''single_thread'']) portion w) = Inr t"
    and "length portion < 2 ^ 64"
  shows "\<exists>portion'. fst (TestDriveWriteFirst c dirPath portion w) = Inr (t, portion') \<and>
           portion' = take (length portion') portion \<and>
           length portion' \<le> length portion \<and>
           (fless g_maxTestDuration (seconds t) \<longrightarrow>
              size_t_of_float (fmul (fdiv g_maxTestDuration (seconds t)) (float_of_nat (length portion)))
                = Some (length portion') \<and>
              2000000000 < t \<and>
              (portion \<noteq> [] \<longrightarrow> length portion' < length portion)) \<and>
           (\<not> fless g_maxTestDuration (seconds t) \<longrightarrow> portion' = portion) \<and>
           (t \<le> 2000000000 \<longrightarrow> portion' = portion)"
proof (cases "fless g_maxTestDuration (seconds t)")
  case False
  then have "fst (TestDriveWriteFirst c dirPath portion w) = Inr (t, portion)"
    using TestDriveWriteFirst_Inr [OF assms(1)] by simp
  then show ?thesis using False by simp
next
  case True
  obtain p where p: "fmul (fdiv g_maxTestDuration (seconds t)) (float_of_nat (length portion)) = Finite p"
    "0 \<le> p" "p \<le> real (length portion)" "0 < length portion \<longrightarrow> p < real (length portion)"
    using preferred_size_bound [OF assms(2) True] by blast
  have "real (length portion) < 2 ^ 64"
    using assms(2) by (metis of_nat_less_iff of_nat_numeral of_nat_power)
  then have p64: "p < 2 ^ 64" using p(3) by simp
  then have cast: "size_t_of_float (Finite p) = Some (nat \<lfloor>p\<rfloor>)" by simp
  have le: "nat \<lfloor>p\<rfloor> \<le> length portion" using p(2,3) by linarith
  have lt: "nat \<lfloor>p\<rfloor> < length portion" if "portion \<noteq> []"
    using p(2,4) that by simp linarith
  have gt: "2000000000 < t"
  proof (rule ccontr)
    assume "\<not> 2000000000 < t"
    then have "t \<le> 2000000000" by simp
    from seconds_le [OF this] True show False by simp
  qed
  have "fst (TestDriveWriteFirst c dirPath portion w) = Inr (t, resize portion (nat \<lfloor>p\<rfloor>))"
    using TestDriveWriteFirst_Inr [OF assms(1)] True p64 by (simp add: p(1))
  moreover have "length (resize portion (nat \<lfloor>p\<rfloor>)) = nat \<lfloor>p\<rfloor>" by (rule length_resize)
  moreover have "resize portion (nat \<lfloor>p\<rfloor>) = take (nat \<lfloor>p\<rfloor>) portion" using le by (rule resize_le)
  ultimately show ?thesis using True le lt gt p(1) cast by auto
qed

lemma resize_zero_block: "resize (zero_block n) k = zero_block k"
  by (simp add: resize_def zero_block_def replicate_add [symmetric])

lemma take_zero_block: "k \<le> n \<Longrightarrow> take k (zero_block n) = zero_block k"
  by (simp add: zero_block_def min_absorb1)

lemma zero_block_inject: "zero_block m = zero_block n \<longleftrightarrow> m = n"
  by (metis length_zero_block)

lemmas first_eval = TestDriveWriteFirst_Inr WriteTestFile_smooth length_zero_block seconds_def
  g_maxTestDuration_def float_eval resize_zero_block

theorem TestDriveWriteFirst_resize_witness:
  "fst (TestDriveWriteFirst (smooth_crt 4000000000) [''x:'', ''temp''] (zero_block 100)
      \<lparr>clock = 0, files = Map.empty\<rparr>) = Inr (4000000000, zero_block 50) \<and>
   fst (TestDriveWriteFirst (smooth_crt 0) [''x:'', ''temp''] (zero_block 100)
      \<lparr>clock = 0, files = Map.empty\<rparr>) = Inr (0, zero_block 100)"
proof -
  let ?d = "[''x:'', ''temp'']"
  let ?w = "\<lparr>clock = 0, files = Map.empty\<rparr>"
  have w4: "fst (WriteTestFile (smooth_crt 4000000000) (?d @ [''single_thread'']) (zero_block 100) ?w)
      = Inr 4000000000"
    using WriteTestFile_smooth [of "zero_block 100" 4000000000] by (simp add: length_zero_block)
  have w0: "fst (WriteTestFile (smooth_crt 0) (?d @ [''single_thread'']) (zero_block 100) ?w) = Inr 0"
    using WriteTestFile_smooth [of "zero_block 100" 0] by (simp add: length_zero_block)
  have s4: "seconds 4000000000 = Finite 4"
    by (simp add: seconds_def float_eval)
  obtain q where q: "fst (TestDriveWriteFirst (smooth_crt 4000000000) ?d (zero_block 100) ?w)
        = Inr (4000000000, q)"
      "q = take (length q) (zero_block 100)" "length q \<le> length (zero_block 100)"
      "fless g_maxTestDuration (seconds 4000000000) \<longrightarrow>
         size_t_of_float (fmul (fdiv g_maxTestDuration (seconds 4000000000))
            (float_of_nat (length (zero_block 100)))) = Some (length q) \<and>
         2000000000 < (4000000000::int) \<and>
         (zero_block 100 \<noteq> [] \<longrightarrow> length q < length (zero_block 100))"
    using TestDriveWriteFirst_resize [OF w4] by (auto simp: length_zero_block)
  have "length q = 50"
    using q(4) by (simp add: s4 length_zero_block g_maxTestDuration_def float_eval)
  then have "q = zero_block 50" using q(2) by (simp add: take_zero_block)
  then have a: "fst (TestDriveWriteFirst (smooth_crt 4000000000) ?d (zero_block 100) ?w)
      = Inr (4000000000, zero_block 50)"
    using q(1) by simp
  have b: "fst (TestDriveWriteFirst (smooth_crt 0) ?d (zero_block 100) ?w) = Inr (0, zero_block 100)"
    using TestDriveWriteFirst_resize [OF w0] by (auto simp: length_zero_block)
  show ?thesis using a b by simp
qed

text \<open>
  C2 as it is stated fails twice. A write of the full block that takes 3 s cuts the
  block to 69905072 bytes, and \<open>\<lfloor>104857600 * (2 / 3)\<rfloor>\<close> is 69905066, which no
  single-precision number is. A write that takes 2.000000001 s has exceeded 2 s, and the
  block keeps its size: in single precision these are 2 seconds.
\<close>

theorem TestDriveWriteFirst_resize_counterexample:
  "fst (TestDriveWriteFirst (smooth_crt 3000000000) [''x:'', ''temp''] (zero_block 104857600)
      \<lparr>clock = 0, files = Map.empty\<rparr>) = Inr (3000000000, zero_block 69905072) \<and>
   \<lfloor>104857600 * (2 / (3000000000 / 1000000000)) :: real\<rfloor> = 69905066 \<and>
   fst (TestDriveWriteFirst (smooth_crt 2000000001) [''x:'', ''temp''] (zero_block 104857600)
      \<lparr>clock = 0, files = Map.empty\<rparr>) = Inr (2000000001, zero_block 104857600) \<and>
   (2::real) < 2000000001 / 1000000000"
  by (simp add: first_eval)

lemma TestDriveWrite_sweep:
  assumes "fst (TestDriveWriteFirst (first_crt env) dirPath (InitPortionWithRandomData (rand_values env) []) w)
      = Inr (t, portion1)"
  shows "TestDriveWrite env dirPath w =
     sweep env dirPath portion1
       (snd (TestDriveWriteFirst (first_crt env) dirPath (InitPortionWithRandomData (rand_values env) []) w))
       \<lparr>slowTests = 0, threadsCount = 2, lastSpeed = CalculateSpeed portion1 1 (nat t)\<rparr>"
  using assms
  by (cases "TestDriveWriteFirst (first_crt env) dirPath (InitPortionWithRandomData (rand_values env) []) w")
    (simp add: TestDriveWrite_def Let_def)

text \<open>On an empty block whose threads take 1 ns each the throughput is always 0.\<close>

lemma sweep_empty_block:
  "sweep (smooth_env d0 (\<lambda>n. 1)) dirPath [] w
     \<lparr>slowTests = 0, threadsCount = 2, lastSpeed = Finite 0\<rparr> = None"
proof -
  define sts :: "nat \<Rightarrow> sweep_state" where
    "sts = (\<lambda>i. \<lparr>slowTests = 0, threadsCount = i + 2, lastSpeed = Finite 0\<rparr>)"
  have "sweep (smooth_env d0 (\<lambda>n. 1)) dirPath [] w (sts 0) = None"
    by (rule sweep_forever) (simp add: sts_def trial_smooth speed_empty g_maxSlowTests_def)
  then show ?thesis by (simp add: sts_def numeral_2_eq_2)
qed

text \<open>
  C9, as the code has it. When the seconds in single precision are above 2, the product
  the block is cut to, \<open>(2 / s) * size\<close> with the quotient and the product rounded to single
  precision, is never negative, and the block is left empty exactly when that rounded
  product is below 1: there are such elapsed times. \<^verbatim>\<open>TestDriveWrite\<close> then goes on into
  the sweep with the empty block.
\<close>

theorem calibration_to_empty:
  "(fst (WriteTestFile c (dirPath @ [''single_thread'']) portion w) = Inr t \<and>
    length portion < 2 ^ 64 \<and> fless g_maxTestDuration (seconds t) \<longrightarrow>
      (\<exists>p. fmul (fdiv g_maxTestDuration (seconds t)) (float_of_nat (length portion)) = Finite p \<and>
           0 \<le> p \<and>
           (p < 1 \<longleftrightarrow> fst (TestDriveWriteFirst c dirPath portion w) = Inr (t, [])))) \<and>
   (fst (TestDriveWriteFirst (first_crt env) dirPath (InitPortionWithRandomData (rand_values env) []) w)
      = Inr (t', []) \<longrightarrow>
    TestDriveWrite env dirPath w =
      sweep env dirPath []
        (snd (TestDriveWriteFirst (first_crt env) dirPath (InitPortionWithRandomData (rand_values env) []) w))
        \<lparr>slowTests = 0, threadsCount = 2, lastSpeed = CalculateSpeed [] 1 (nat t')\<rparr>)"
proof (intro conjI impI)
  assume a: "fst (WriteTestFile c (dirPath @ [''single_thread'']) portion w) = Inr t \<and>
    length portion < 2 ^ 64 \<and> fless g_maxTestDuration (seconds t)"
  then obtain p where p: "fmul (fdiv g_maxTestDuration (seconds t)) (float_of_nat (length portion)) = Finite p"
    "0 \<le> p" "p \<le> real (length portion)"
    using preferred_size_bound [of "length portion" t] by blast
  have "real (length portion) < 2 ^ 64"
    using a by (metis of_nat_less_iff of_nat_numeral of_nat_power)
  then have p64: "p < 2 ^ 64" using p(3) by simp
  have res: "fst (TestDriveWriteFirst c dirPath portion w) = Inr (t, resize portion (nat \<lfloor>p\<rfloor>))"
    using a p64 TestDriveWriteFirst_Inr [of c dirPath portion w t] by (simp add: p(1))
  have "resize portion (nat \<lfloor>p\<rfloor>) = [] \<longleftrightarrow> nat \<lfloor>p\<rfloor> = 0"
    using length_resize [of portion "nat \<lfloor>p\<rfloor>"] by (metis length_0_conv)
  also have "\<dots> \<longleftrightarrow> p < 1" using p(2) by linarith
  finally have "p < 1 \<longleftrightarrow> fst (TestDriveWriteFirst c dirPath portion w) = Inr (t, [])"
    by (simp add: res)
  then show "\<exists>p. fmul (fdiv g_maxTestDuration (seconds t)) (float_of_nat (length portion)) = Finite p \<and>
           0 \<le> p \<and> (p < 1 \<longleftrightarrow> fst (TestDriveWriteFirst c dirPath portion w) = Inr (t, []))"
    using p by blast
next
  assume "fst (TestDriveWriteFirst (first_crt env) dirPath (InitPortionWithRandomData (rand_values env) []) w)
      = Inr (t', [])"
  then show "TestDriveWrite env dirPath w =
      sweep env dirPath []
        (snd (TestDriveWriteFirst (first_crt env) dirPath (InitPortionWithRandomData (rand_values env) []) w))
        \<lparr>slowTests = 0, threadsCount = 2, lastSpeed = CalculateSpeed [] 1 (nat t')\<rparr>"
    by (rule TestDriveWrite_sweep)
qed

text \<open>
  A block of 100 bytes is left empty by a write of 201 s, and the full block by a write
  of \<open>3 * 10^17\<close> ns; the sweep that follows the latter, with threads that take 1 ns each,
  does not end.
\<close>

theorem calibration_to_empty_witness:
  "fst (TestDriveWriteFirst (smooth_crt 201000000000) [''x:'', ''temp''] (zero_block 100)
      \<lparr>clock = 0, files = Map.empty\<rparr>) = Inr (201000000000, []) \<and>
   fst (TestDriveWriteFirst (first_crt (smooth_env 300000000000000000 (\<lambda>n. 1))) [''x:'', ''temp'']
      (InitPortionWithRandomData (rand_values (smooth_env 300000000000000000 (\<lambda>n. 1))) [])
      \<lparr>clock = 0, files = Map.empty\<rparr>) = Inr (300000000000000000, []) \<and>
   TestDriveWrite (smooth_env 300000000000000000 (\<lambda>n. 1)) [''x:'', ''temp'']
      \<lparr>clock = 0, files = Map.empty\<rparr> = None"
proof -
  let ?d = "[''x:'', ''temp'']"
  let ?w = "\<lparr>clock = 0, files = Map.empty\<rparr>"
  let ?env = "smooth_env 300000000000000000 (\<lambda>n. 1)"
  let ?block = "InitPortionWithRandomData (rand_values ?env) []"
  have w1: "fst (WriteTestFile (smooth_crt 201000000000) (?d @ [''single_thread'']) (zero_block 100) ?w)
      = Inr 201000000000"
    using WriteTestFile_smooth [of "zero_block 100" 201000000000] by (simp add: length_zero_block)
  have s1: "fless g_maxTestDuration (seconds 201000000000)"
    by (simp add: seconds_def g_maxTestDuration_def float_eval)
  have p1: "fmul (fdiv g_maxTestDuration (seconds 201000000000)) (float_of_nat 100)
      = Finite (16693747 / 16777216)"
    by (simp add: seconds_def g_maxTestDuration_def float_eval)
  have a: "fst (TestDriveWriteFirst (smooth_crt 201000000000) ?d (zero_block 100) ?w)
      = Inr (201000000000, [])"
    using calibration_to_empty [of "smooth_crt 201000000000" ?d "zero_block 100" ?w 201000000000,
        THEN conjunct1] w1 s1
    by (auto simp add: length_zero_block p1)
  have len: "length (InitPortionWithRandomData r []) = 104857600" for r
    by (simp add: length_InitPortion g_portionSize_def)
  have w2: "fst (WriteTestFile (smooth_crt 300000000000000000) (?d @ [''single_thread'']) ?block ?w)
      = Inr 300000000000000000"
    using WriteTestFile_smooth [of ?block 300000000000000000] by (simp add: len)
  have s2: "fless g_maxTestDuration (seconds 300000000000000000)"
    by (simp add: seconds_def g_maxTestDuration_def float_eval)
  have p2: "fmul (fdiv g_maxTestDuration (seconds 300000000000000000)) (float_of_nat 104857600)
      = Finite (2932031 / 4194304)"
    by (simp add: seconds_def g_maxTestDuration_def float_eval)
  have b: "fst (TestDriveWriteFirst (first_crt ?env) ?d ?block ?w) = Inr (300000000000000000, [])"
    using calibration_to_empty [of "smooth_crt 300000000000000000" ?d ?block ?w 300000000000000000,
        THEN conjunct1] w2 s2
    by (auto simp add: len p2 smooth_env_def)
  have speed: "CalculateSpeed [] 1 (nat 300000000000000000) = Finite 0"
    by (simp add: CalculateSpeed_def float_eval)
  have c: "TestDriveWrite ?env ?d ?w = None"
    unfolding calibration_to_empty [where env = ?env and dirPath = ?d and w = ?w and t' = 300000000000000000,
        THEN conjunct2, THEN mp, OF b] speed
    by (rule sweep_empty_block)
  show ?thesis using a b c by (intro conjI)
qed

text \<open>
  C9 as it is stated fails: the product that decides is the rounded one. A write of
  200.000001 s on a block of 100 bytes has \<open>2 / elapsedSeconds * blockSize\<close> below 1, and
  leaves a block of 1 byte: in single precision these are 200 seconds. A write of
  62.000004 s on a block of 31 bytes has both the elapsed seconds and the seconds in single
  precision above \<open>2 * blockSize\<close>, and leaves a block of 1 byte as well.
\<close>

theorem calibration_to_empty_counterexample:
  "fst (TestDriveWriteFirst (smooth_crt 200000001000) [''x:'', ''temp''] (zero_block 100)
      \<lparr>clock = 0, files = Map.empty\<rparr>) = Inr (200000001000, zero_block 1) \<and>
   (2 / (200000001000 / 1000000000) * 100 :: real) < 1 \<and>
   fst (TestDriveWriteFirst (smooth_crt 62000004000) [''x:'', ''temp''] (zero_block 31)
      \<lparr>clock = 0, files = Map.empty\<rparr>) = Inr (62000004000, zero_block 1) \<and>
   (2 * 31 :: real) < 62000004000 / 1000000000 \<and>
   fless (Finite (2 * 31)) (seconds 62000004000) \<and>
   zero_block 1 \<noteq> []"
proof -
  have "zero_block 1 \<noteq> []" by (simp add: zero_block_def)
  then show ?thesis by (simp add: first_eval)
qed

end
